theory Spec2Isabelle
  imports Complex_Main "HOL-Library.Sublist" "HOL-Library.Multiset"
begin

section \<open>Domain model (schemas.py)\<close>

text \<open>
  The four pydantic models of \<^verbatim>\<open>schemas.py\<close> as records. A Python float is modelled
  as the real it denotes and float arithmetic as exact: rounding and NaN are outside
  the model, and so is overflow, except in the quotient of \<open>compute_dscr\<close>, whose
  result may be infinite. Field names are
  the source's, with a prefix where two models share a name (\<open>p_name\<close>,
  \<open>opt_max_ltc\<close>, \<open>slice_kind\<close>, \<open>slice_annual_cost\<close>, \<open>stack_tdc\<close>, \<open>stack_notes\<close>).
  \<open>Project.max_ltc\<close> is a float with default 0.65 in the schema; \<open>optimize_stack\<close>
  still tests it against \<open>None\<close>, so the model keeps it optional.
\<close>

datatype kind = Debt | Mezz | Pref | Equity

record project =
  p_name :: string
  location :: "string option"
  tdc :: real
  noi :: real
  min_dscr :: real
  max_ltc :: "real option"
  min_equity :: real

record capital_option =
  name :: string
  kind :: kind
  annual_cost :: real
  points :: real
  min_share :: real
  max_share :: real
  opt_max_ltc :: "real option"
  enforce_dscr :: bool

record stack_slice =
  option_name :: string
  slice_kind :: kind
  amount :: real
  share :: real
  slice_annual_cost :: real

record capital_stack =
  project_name :: string
  stack_tdc :: real
  wacc :: real
  slices :: "stack_slice list"
  stack_notes :: "string option"

text \<open>
  What a call can raise: the \<open>HTTPException\<close>s of \<open>optimize_stack\<close> (status code and
  detail), the \<open>AttributeError\<close> of reading \<open>common_equity.max_share\<close> when
  \<open>common_equity\<close> is \<open>None\<close>, and the \<open>ZeroDivisionError\<close> of a float division.
\<close>

datatype error = HTTPException nat string | AttributeError | ZeroDivisionError

text \<open>One entry of the ledger \<open>allocations\<close>: the pair \<open>(option, amount)\<close>.\<close>

type_synonym allocation = "capital_option \<times> real"

type_synonym ledger = "allocation list \<times> real"

section \<open>The DSCR calculator\<close>

text \<open>A float that may be \<open>float("inf")\<close> or \<open>-float("inf")\<close>.\<close>

datatype rate = PosInf | NegInf | Finite real

text \<open>
  A binary64 float has 53 significant bits and its largest finite value is
  \<open>2^1024 - 2^971\<close>. An operation rounds its exact result to the nearest float, and a
  result of magnitude \<open>2^1024 - 2^970\<close> or more (half a unit in the last place
  above the largest float) rounds to infinity.
\<close>

definition float_overflow :: real where
  "float_overflow = 2 ^ 1024 - 2 ^ 970"

text \<open>
  \<open>x / y\<close> on finite Python floats: \<open>ZeroDivisionError\<close> at a zero divisor, and
  infinity where the quotient overflows; a finite result is kept exact.
\<close>

definition float_div :: "real \<Rightarrow> real \<Rightarrow> error + rate" where
  "float_div x y =
     (if y = 0 then Inl ZeroDivisionError
      else if float_overflow \<le> x / y then Inr PosInf
      else if x / y \<le> - float_overflow then Inr NegInf
      else Inr (Finite (x / y)))"

definition compute_dscr :: "real \<Rightarrow> real \<Rightarrow> error + rate" where
  "compute_dscr noi_v annual_debt_service =
     (if annual_debt_service = 0 then Inr PosInf else float_div noi_v annual_debt_service)"

text \<open>\<open>dscr < x\<close> for a finite float \<open>x\<close>: infinity is below nothing.\<close>

definition rate_less :: "rate \<Rightarrow> real \<Rightarrow> bool" where
  "rate_less d x = (case d of PosInf \<Rightarrow> False | NegInf \<Rightarrow> True | Finite v \<Rightarrow> v < x)"

text \<open>\<open>dscr >= x\<close> for a finite float \<open>x\<close>.\<close>

definition rate_ge :: "rate \<Rightarrow> real \<Rightarrow> bool" where
  "rate_ge d x = (case d of PosInf \<Rightarrow> True | NegInf \<Rightarrow> False | Finite v \<Rightarrow> x \<le> v)"

section \<open>The allocator\<close>

definition eff_cost :: "capital_option \<Rightarrow> real" where
  "eff_cost opt = annual_cost opt + points opt"

text \<open>\<open>sum(a for o, a in allocations if o.name == n)\<close>\<close>

definition allocated :: "string \<Rightarrow> allocation list \<Rightarrow> real" where
  "allocated n al = sum_list (map snd (filter (\<lambda>(o1, a). name o1 = n) al))"

text \<open>\<open>o.kind in ("debt", "mezz")\<close>\<close>

definition is_debt :: "capital_option \<Rightarrow> bool" where
  "is_debt opt = (kind opt = Debt \<or> kind opt = Mezz)"

text \<open>First pass: respect \<open>min_share\<close> of each option.\<close>

fun first_pass :: "real \<Rightarrow> capital_option list \<Rightarrow> ledger \<Rightarrow> ledger" where
  "first_pass t [] (al, remaining) = (al, remaining)"
| "first_pass t (opt # opts) (al, remaining) =
     (let min_amt = max (min_share opt * t) 0 in
      if min_amt > 0 then
        (let max_cap = max_share opt * t;
             use = min (min min_amt max_cap) remaining in
         if use > 0 then first_pass t opts (al @ [(opt, use)], remaining - use)
         else first_pass t opts (al, remaining))
      else first_pass t opts (al, remaining))"

text \<open>Second pass: fill the remainder with the cheapest options; the loop breaks
  once \<open>remaining <= 1e-6\<close>.\<close>

fun second_pass :: "real \<Rightarrow> capital_option list \<Rightarrow> ledger \<Rightarrow> ledger" where
  "second_pass t [] (al, remaining) = (al, remaining)"
| "second_pass t (opt # opts) (al, remaining) =
     (if remaining \<le> 1 / 1000000 then (al, remaining)
      else
        (let current_amt = allocated (name opt) al;
             max_cap = max_share opt * t;
             addable = max_cap - current_amt;
             addable = (case opt_max_ltc opt of
                          None \<Rightarrow> addable
                        | Some l \<Rightarrow> min addable (l * t - current_amt));
             add = min addable remaining in
         if add > 1 / 1000000 then second_pass t opts (al @ [(opt, add)], remaining - add)
         else second_pass t opts (al, remaining)))"

text \<open>Ensure the equity minimum; nothing happens when there is no equity option.\<close>

definition ensure_equity_minimum ::
  "project \<Rightarrow> capital_option option \<Rightarrow> ledger \<Rightarrow> ledger" where
  "ensure_equity_minimum p common_equity st =
     (case st of (al, remaining) \<Rightarrow>
      (case common_equity of
         None \<Rightarrow> (al, remaining)
       | Some ce \<Rightarrow>
          (let current_equity = allocated (name ce) al;
               min_equity_amt = max (min_equity p * tdc p) (min_share ce * tdc p) in
           if current_equity < min_equity_amt then
             (let needed = min_equity_amt - current_equity;
                  space = max_share ce * tdc p - current_equity;
                  adj = min needed space in
              if adj > 0 then (al @ [(ce, adj)], remaining - adj) else (al, remaining))
           else (al, remaining))))"

text \<open>If something still remains, force equity to fill it.\<close>

definition force_equity_fill ::
  "real \<Rightarrow> capital_option option \<Rightarrow> ledger \<Rightarrow> error + ledger" where
  "force_equity_fill t common_equity st =
     (case st of (al, remaining) \<Rightarrow>
      if remaining > 1 / 1000000 then
        (case common_equity of
           None \<Rightarrow> Inl (HTTPException 400 ''No equity option to complete the stack'')
         | Some ce \<Rightarrow>
            (let space = max_share ce * t - allocated (name ce) al;
                 add = min space remaining in
             if add \<le> 0 then
               Inl (HTTPException 400 ''Constraints too tight to fully fund the stack'')
             else Inr (al @ [(ce, add)], remaining - add)))
      else Inr (al, remaining))"

text \<open>The two totals taken once, before the corrections.\<close>

definition total_annual_debt :: "allocation list \<Rightarrow> real" where
  "total_annual_debt al =
     sum_list (map (\<lambda>(o1, a). a * annual_cost o1)
       (filter (\<lambda>(o1, a). is_debt o1 \<and> enforce_dscr o1) al))"

definition total_debt_amount :: "allocation list \<Rightarrow> real" where
  "total_debt_amount al = sum_list (map snd (filter (\<lambda>(o1, a). is_debt o1) al))"

text \<open>The loop of the LTC correction: every debt or mezz entry loses
  \<open>a * reduce_ratio\<close>, which is added to \<open>remaining\<close>.\<close>

fun reduce_debt :: "real \<Rightarrow> allocation list \<Rightarrow> real \<Rightarrow> ledger" where
  "reduce_debt reduce_ratio [] remaining = ([], remaining)"
| "reduce_debt reduce_ratio ((o1, a) # rest) remaining =
     (if is_debt o1 then
        (let reduce_amt = a * reduce_ratio;
             (rest', remaining') = reduce_debt reduce_ratio rest (remaining + reduce_amt)
         in ((o1, a - reduce_amt) # rest', remaining'))
      else
        (let (rest', remaining') = reduce_debt reduce_ratio rest remaining
         in ((o1, a) # rest', remaining')))"

text \<open>Fill with equity after a correction; \<open>detail\<close> is the message of the stage.
  Reading \<open>common_equity.max_share\<close> raises when \<open>common_equity\<close> is \<open>None\<close>.\<close>

definition fill_with_equity ::
  "string \<Rightarrow> real \<Rightarrow> capital_option option \<Rightarrow> ledger \<Rightarrow> error + ledger" where
  "fill_with_equity detail t common_equity st =
     (case st of (al, remaining) \<Rightarrow>
      (case common_equity of
         None \<Rightarrow> Inl AttributeError
       | Some ce \<Rightarrow>
          (let space = max_share ce * t - allocated (name ce) al;
               add = min space remaining in
           if add < remaining - 1 / 1000000 then Inl (HTTPException 400 detail)
           else Inr (al @ [(ce, add)], remaining - add))))"

text \<open>Enforce the project's max LTC.\<close>

definition enforce_max_ltc ::
  "project \<Rightarrow> capital_option option \<Rightarrow> real \<Rightarrow> ledger \<Rightarrow> error + ledger" where
  "enforce_max_ltc p common_equity total_debt st =
     (case st of (al, remaining) \<Rightarrow>
      (case max_ltc p of
         None \<Rightarrow> Inr (al, remaining)
       | Some l \<Rightarrow>
          if total_debt > l * tdc p then
            (let reduce_ratio = (total_debt - l * tdc p) / max total_debt (1 / 1000000000)
             in fill_with_equity ''Equity caps too tight to replace reduced debt'' (tdc p)
                  common_equity (reduce_debt reduce_ratio al remaining))
          else Inr (al, remaining)))"

text \<open>The inner loop of the DSCR correction: the first entry of the ledger with the
  name \<open>n\<close> and an amount within \<open>1e-9\<close> of \<open>a\<close> loses \<open>take_principal\<close>.\<close>

fun apply_reduction :: "string \<Rightarrow> real \<Rightarrow> real \<Rightarrow> allocation list \<Rightarrow> allocation list" where
  "apply_reduction n a take_principal [] = []"
| "apply_reduction n a take_principal ((oo, aa) # rest) =
     (if name oo = n \<and> \<bar>aa - a\<bar> < 1 / 1000000000 then (oo, aa - take_principal) # rest
      else (oo, aa) # apply_reduction n a take_principal rest)"

text \<open>The outer loop of the DSCR correction over the sorted snapshot \<open>dscr_debts\<close>;
  it breaks once \<open>delta_annual <= 1e-6\<close>.\<close>

fun reduce_dscr_debts ::
  "allocation list \<Rightarrow> allocation list \<Rightarrow> real \<Rightarrow> real \<Rightarrow> error + ledger" where
  "reduce_dscr_debts [] al delta_annual remaining = Inr (al, remaining)"
| "reduce_dscr_debts ((o1, a) # ds) al delta_annual remaining =
     (if delta_annual \<le> 1 / 1000000 then Inr (al, remaining)
      else
        (let reducible_annual = a * annual_cost o1;
             take = min reducible_annual delta_annual in
         if annual_cost o1 = 0 then Inl ZeroDivisionError
         else
           (let take_principal = take / annual_cost o1 in
            reduce_dscr_debts ds (apply_reduction (name o1) a take_principal al)
              (delta_annual - take) (remaining + take_principal))))"

text \<open>\<open>sorted([... DSCR-enforced debt ...], key=lambda x: -x[0].annual_cost)\<close>;
  Python's sort is stable, as \<open>sort_key\<close> is.\<close>

definition dscr_debts :: "allocation list \<Rightarrow> allocation list" where
  "dscr_debts al =
     sort_key (\<lambda>(o1, a). - annual_cost o1) (filter (\<lambda>(o1, a). is_debt o1 \<and> enforce_dscr o1) al)"

text \<open>Enforce DSCR.\<close>

definition enforce_dscr_covenant ::
  "project \<Rightarrow> capital_option option \<Rightarrow> real \<Rightarrow> ledger \<Rightarrow> error + ledger" where
  "enforce_dscr_covenant p common_equity total_annual st =
     (case st of (al, remaining) \<Rightarrow>
      (case compute_dscr (noi p) total_annual of
         Inl e \<Rightarrow> Inl e
       | Inr dscr \<Rightarrow>
          if rate_less dscr (min_dscr p) then
            (if min_dscr p = 0 then Inl ZeroDivisionError
             else
               (let required_annual_debt = noi p / min_dscr p;
                    delta_annual = max (total_annual - required_annual_debt) 0 in
                case reduce_dscr_debts (dscr_debts al) al delta_annual remaining of
                  Inl e \<Rightarrow> Inl e
                | Inr st' \<Rightarrow>
                    fill_with_equity ''Equity caps too tight to hit DSCR'' (tdc p)
                      common_equity st'))
          else Inr (al, remaining)))"

text \<open>Aggregation by \<open>(name, kind, annual_cost)\<close>: the dict \<open>agg\<close> as an association
  list in insertion order.\<close>

type_synonym agg_key = "string \<times> kind \<times> real"

fun agg_add :: "agg_key \<Rightarrow> real \<Rightarrow> (agg_key \<times> real) list \<Rightarrow> (agg_key \<times> real) list" where
  "agg_add k a [] = [(k, 0 + a)]"
| "agg_add k a ((k', v) # rest) =
     (if k' = k then (k', v + a) # rest else (k', v) # agg_add k a rest)"

fun aggregate :: "allocation list \<Rightarrow> (agg_key \<times> real) list \<Rightarrow> (agg_key \<times> real) list" where
  "aggregate [] agg = agg"
| "aggregate ((o1, a) # rest) agg =
     (if a \<le> 1 / 1000000 then aggregate rest agg
      else aggregate rest (agg_add (name o1, kind o1, annual_cost o1) a agg))"

definition make_slice :: "real \<Rightarrow> agg_key \<times> real \<Rightarrow> stack_slice" where
  "make_slice t e =
     (case e of ((n, k, c), amt) \<Rightarrow>
        \<lparr>option_name = n, slice_kind = k, amount = amt, share = amt / t,
         slice_annual_cost = c\<rparr>)"

text \<open>The slices and the WACC; each division by \<open>tdc\<close> raises when \<open>tdc\<close> is zero,
  the last one on every path.\<close>

definition build_stack :: "project \<Rightarrow> allocation list \<Rightarrow> error + capital_stack" where
  "build_stack p al =
     (let agg = aggregate al [];
          total_cost_annual = fold (\<lambda>((n, k, c), amt) acc. acc + amt * c) agg 0 in
      if tdc p = 0 then Inl ZeroDivisionError
      else Inr \<lparr>project_name = p_name p, stack_tdc = tdc p,
                wacc = total_cost_annual / tdc p,
                slices = map (make_slice (tdc p)) agg,
                stack_notes = Some ''Heuristic allocation - minimizes cost subject to DSCR/LTC/equity constraints.''\<rparr>)"

definition optimize_stack ::
  "project \<Rightarrow> capital_option list \<Rightarrow> real \<Rightarrow> error + capital_stack" where
  "optimize_stack p options granularity =
     (let sorted_opts = sort_key eff_cost options;
          st1 = first_pass (tdc p) sorted_opts ([], tdc p);
          st2 = second_pass (tdc p) sorted_opts st1;
          common_equity = find (\<lambda>o1. kind o1 = Equity) options;
          st3 = ensure_equity_minimum p common_equity st2 in
      case force_equity_fill (tdc p) common_equity st3 of
        Inl e \<Rightarrow> Inl e
      | Inr st4 \<Rightarrow>
         (let total_annual = total_annual_debt (fst st4);
              total_debt = total_debt_amount (fst st4) in
          case enforce_max_ltc p common_equity total_debt st4 of
            Inl e \<Rightarrow> Inl e
          | Inr st5 \<Rightarrow>
             (case enforce_dscr_covenant p common_equity total_annual st5 of
                Inl e \<Rightarrow> Inl e
              | Inr st6 \<Rightarrow> build_stack p (fst st6))))"

section \<open>Measures on ledgers and stacks\<close>

text \<open>The constraints the request schema puts on a project and on an instrument.\<close>

definition valid_project :: "project \<Rightarrow> bool" where
  "valid_project p =
     (0 < tdc p \<and> 0 \<le> noi p \<and> 0 < min_dscr p \<and>
      (case max_ltc p of None \<Rightarrow> False | Some l \<Rightarrow> 0 < l \<and> l \<le> 1) \<and>
      0 \<le> min_equity p \<and> min_equity p \<le> 1)"

definition valid_option :: "capital_option \<Rightarrow> bool" where
  "valid_option opt =
     (0 < annual_cost opt \<and> 0 \<le> points opt \<and> 0 \<le> min_share opt \<and> min_share opt \<le> 1 \<and>
      0 < max_share opt \<and> max_share opt \<le> 1 \<and>
      (case opt_max_ltc opt of None \<Rightarrow> True | Some l \<Rightarrow> 0 \<le> l \<and> l \<le> 1))"

text \<open>What the returned stack allots to debt and mezz, to one instrument (the slice
  with its name, kind and annual cost), and what it owes per year on the debt and mezz slices whose instrument (looked
  up by name) counts toward the DSCR covenant.\<close>

definition debt_amount :: "capital_stack \<Rightarrow> real" where
  "debt_amount st =
     sum_list (map amount (filter (\<lambda>s. slice_kind s = Debt \<or> slice_kind s = Mezz) (slices st)))"

definition option_amount :: "capital_option \<Rightarrow> capital_stack \<Rightarrow> real" where
  "option_amount opt st =
     sum_list (map amount
       (filter (\<lambda>s. option_name s = name opt \<and> slice_kind s = kind opt \<and>
                     slice_annual_cost s = annual_cost opt)
          (slices st)))"

text \<open>The weight that picks the ledger entries of one instrument's slice.\<close>

definition same_slice :: "capital_option \<Rightarrow> capital_option \<Rightarrow> real" where
  "same_slice opt o1 =
     (if name o1 = name opt \<and> kind o1 = kind opt \<and> annual_cost o1 = annual_cost opt
      then 1 else 0)"

definition dscr_enforced :: "capital_option list \<Rightarrow> string \<Rightarrow> bool" where
  "dscr_enforced options n =
     (case find (\<lambda>o1. name o1 = n) options of None \<Rightarrow> False | Some o1 \<Rightarrow> enforce_dscr o1)"

definition enforced_debt_service :: "capital_option list \<Rightarrow> capital_stack \<Rightarrow> real" where
  "enforced_debt_service options st =
     sum_list (map (\<lambda>s. amount s * slice_annual_cost s)
       (filter (\<lambda>s. (slice_kind s = Debt \<or> slice_kind s = Mezz) \<and>
                     dscr_enforced options (option_name s))
          (slices st)))"

text \<open>The weighted sum of the ledger entries that survive aggregation (those above
  \<open>1e-6\<close>): every sum over slices is one of these.\<close>

definition kept :: "(capital_option \<Rightarrow> real) \<Rightarrow> allocation list \<Rightarrow> real" where
  "kept w al = (\<Sum>e\<leftarrow>al. if snd e > 1 / 1000000 then w (fst e) * snd e else 0)"

text \<open>What the loop of the LTC correction does to one entry.\<close>

definition shrink_debt :: "real \<Rightarrow> allocation \<Rightarrow> allocation" where
  "shrink_debt reduce_ratio e =
     (if is_debt (fst e) then (fst e, snd e - snd e * reduce_ratio) else e)"

text \<open>The first equity option of the request, and the ledger as it stands before the two
  corrections: the first five steps of \<open>optimize_stack\<close>.\<close>

definition common_equity_of :: "capital_option list \<Rightarrow> capital_option option" where
  "common_equity_of options = find (\<lambda>o1. kind o1 = Equity) options"

definition funded_ledger :: "project \<Rightarrow> capital_option list \<Rightarrow> error + ledger" where
  "funded_ledger p options =
     (let sorted_opts = sort_key eff_cost options;
          st1 = first_pass (tdc p) sorted_opts ([], tdc p);
          st2 = second_pass (tdc p) sorted_opts st1;
          common_equity = find (\<lambda>o1. kind o1 = Equity) options;
          st3 = ensure_equity_minimum p common_equity st2 in
      force_equity_fill (tdc p) common_equity st3)"

text \<open>The ledger that the DSCR correction of a run receives, and the ledger it
  returns.\<close>

definition dscr_stage ::
  "project \<Rightarrow> capital_option list \<Rightarrow> error + allocation list \<times> allocation list" where
  "dscr_stage p options =
     (case funded_ledger p options of
        Inl e \<Rightarrow> Inl e
      | Inr st4 \<Rightarrow>
         (case enforce_max_ltc p (common_equity_of options) (total_debt_amount (fst st4)) st4 of
            Inl e \<Rightarrow> Inl e
          | Inr st5 \<Rightarrow>
             (case enforce_dscr_covenant p (common_equity_of options)
                     (total_annual_debt (fst st4)) st5 of
                Inl e \<Rightarrow> Inl e
              | Inr st6 \<Rightarrow> Inr (fst st5, fst st6))))"

text \<open>Most expensive first, between two ledgers: an instrument counted toward the
  covenant holds less in the second ledger than in the first only if every such
  instrument of a higher annual cost holds nothing in the second.\<close>

definition sheds_dearest_first ::
  "capital_option list \<Rightarrow> allocation list \<Rightarrow> allocation list \<Rightarrow> bool" where
  "sheds_dearest_first options al al' =
     (\<forall>o1\<in>set options. \<forall>o2\<in>set options.
        is_debt o1 \<and> enforce_dscr o1 \<and> is_debt o2 \<and> enforce_dscr o2 \<and>
        annual_cost o2 < annual_cost o1 \<and> allocated (name o2) al' < allocated (name o2) al
        \<longrightarrow> allocated (name o1) al' = 0)"

text \<open>The amount the second pass offers an option: \<open>add\<close> of its loop body.\<close>

definition second_add :: "real \<Rightarrow> capital_option \<Rightarrow> allocation list \<Rightarrow> real \<Rightarrow> real" where
  "second_add t opt al r =
     min (case opt_max_ltc opt of
            None \<Rightarrow> max_share opt * t - allocated (name opt) al
          | Some l \<Rightarrow> min (max_share opt * t - allocated (name opt) al)
                        (l * t - allocated (name opt) al)) r"

text \<open>The claim's reading of the covenant's debt service: over all slices whose
  instrument has \<open>enforce_dscr\<close>, whatever its kind.\<close>

definition enforced_service :: "capital_option list \<Rightarrow> capital_stack \<Rightarrow> real" where
  "enforced_service options st =
     sum_list (map (\<lambda>s. amount s * slice_annual_cost s)
       (filter (\<lambda>s. dscr_enforced options (option_name s)) (slices st)))"

text \<open>The weight of an entry in the covenant's debt service, as \<open>optimize_stack\<close>
  counts it: the annual cost of a debt or mezz option with \<open>enforce_dscr\<close>.\<close>

definition dscr_weight :: "capital_option \<Rightarrow> real" where
  "dscr_weight o1 = (if is_debt o1 \<and> enforce_dscr o1 then annual_cost o1 else 0)"

text \<open>The amounts a ledger holds under one name, in ledger order; what the inner loop
  of the DSCR correction does to them; their part above \<open>1e-6\<close>; and the relation
  between the amounts still to be visited by the outer loop and the amounts in the
  ledger: nothing is left to visit, or nothing was visited yet, or one entry was
  taken in full and one is left.\<close>

definition amounts_of :: "string \<Rightarrow> allocation list \<Rightarrow> real list" where
  "amounts_of n al = map snd (filter (\<lambda>e. name (fst e) = n) al)"

fun reduce_first :: "real \<Rightarrow> real \<Rightarrow> real list \<Rightarrow> real list" where
  "reduce_first a tp [] = []"
| "reduce_first a tp (x # xs) =
     (if \<bar>x - a\<bar> < 1 / 1000000000 then (x - tp) # xs else x # reduce_first a tp xs)"

definition kept_amounts :: "real list \<Rightarrow> real" where
  "kept_amounts xs = (\<Sum>x\<leftarrow>xs. if x > 1 / 1000000 then x else 0)"

definition visiting :: "real list \<Rightarrow> real list \<Rightarrow> bool" where
  "visiting todo cur =
     (todo = [] \<or> (cur = todo \<and> length todo \<le> 2) \<or>
      (\<exists>x a. cur = [x, a] \<and> todo = [a] \<and> x \<le> 0))"

section \<open>Example inputs\<close>

text \<open>The project and the two instruments of the specification's worked example.\<close>

definition example_project :: project where
  "example_project =
     \<lparr>p_name = ''Example'', location = None, tdc = 10000000, noi = 900000,
      min_dscr = 5 / 4, max_ltc = Some (65 / 100), min_equity = 1 / 10\<rparr>"

definition senior_debt :: capital_option where
  "senior_debt =
     \<lparr>name = ''SeniorDebt'', kind = Debt, annual_cost = 6 / 100, points = 0,
      min_share = 0, max_share = 65 / 100, opt_max_ltc = None, enforce_dscr = True\<rparr>"

definition common_equity_opt :: capital_option where
  "common_equity_opt =
     \<lparr>name = ''CommonEquity'', kind = Equity, annual_cost = 12 / 100, points = 0,
      min_share = 1 / 10, max_share = 1, opt_max_ltc = None, enforce_dscr = False\<rparr>"

definition example_stack :: capital_stack where
  "example_stack =
     \<lparr>project_name = ''Example'', stack_tdc = 10000000, wacc = 81 / 1000,
      slices =
        [\<lparr>option_name = ''CommonEquity'', slice_kind = Equity, amount = 3500000,
          share = 7 / 20, slice_annual_cost = 3 / 25\<rparr>,
         \<lparr>option_name = ''SeniorDebt'', slice_kind = Debt, amount = 6500000,
          share = 13 / 20, slice_annual_cost = 3 / 50\<rparr>],
      stack_notes = Some ''Heuristic allocation - minimizes cost subject to DSCR/LTC/equity constraints.''\<rparr>"

text \<open>A small project with the schema's default covenants, and instruments for it.\<close>

definition small_project :: project where
  "small_project =
     \<lparr>p_name = ''Small'', location = None, tdc = 100, noi = 100,
      min_dscr = 5 / 4, max_ltc = Some (65 / 100), min_equity = 1 / 10\<rparr>"

definition instrument :: "string \<Rightarrow> kind \<Rightarrow> real \<Rightarrow> capital_option" where
  "instrument n k c =
     \<lparr>name = n, kind = k, annual_cost = c, points = 0, min_share = 0, max_share = 1,
      opt_max_ltc = None, enforce_dscr = False\<rparr>"

definition heuristic_note :: "string option" where
  "heuristic_note = Some ''Heuristic allocation - minimizes cost subject to DSCR/LTC/equity constraints.''"

text \<open>The specification's example that forces the DSCR correction, and the stack
  \<open>optimize_stack\<close> returns for it.\<close>

definition dscr_project :: project where
  "dscr_project = example_project\<lparr>noi := 300000\<rparr>"

definition dscr_stack :: capital_stack where
  "dscr_stack =
     \<lparr>project_name = ''Example'', stack_tdc = 10000000, wacc = 12 / 125,
      slices =
        [\<lparr>option_name = ''CommonEquity'', slice_kind = Equity, amount = 6000000,
          share = 3 / 5, slice_annual_cost = 3 / 25\<rparr>,
         \<lparr>option_name = ''SeniorDebt'', slice_kind = Debt, amount = 4000000,
          share = 2 / 5, slice_annual_cost = 3 / 50\<rparr>],
      stack_notes = heuristic_note\<rparr>"

text \<open>Covenant-counted senior debt at 6 percent, and at a rate so low that half of the
  small project costs 5e-7 a year; the small project with a net operating income of
  1e-7 and of 0; and the stacks returned for them.\<close>

definition enforced_debt :: capital_option where
  "enforced_debt =
     \<lparr>name = ''Senior'', kind = Debt, annual_cost = 6 / 100, points = 0,
      min_share = 0, max_share = 1 / 2, opt_max_ltc = None, enforce_dscr = True\<rparr>"

definition thin_debt :: capital_option where
  "thin_debt =
     \<lparr>name = ''Senior'', kind = Debt, annual_cost = 1 / 100000000, points = 0,
      min_share = 0, max_share = 1 / 2, opt_max_ltc = None, enforce_dscr = True\<rparr>"

definition thin_project :: project where
  "thin_project = small_project\<lparr>noi := 1 / 10000000\<rparr>"

definition idle_project :: project where
  "idle_project = small_project\<lparr>noi := 0\<rparr>"

definition thin_stack :: capital_stack where
  "thin_stack =
     \<lparr>project_name = ''Small'', stack_tdc = 100, wacc = 12000001 / 200000000,
      slices =
        [\<lparr>option_name = ''Senior'', slice_kind = Debt, amount = 50, share = 1 / 2,
          slice_annual_cost = 1 / 100000000\<rparr>,
         \<lparr>option_name = ''Common'', slice_kind = Equity, amount = 50, share = 1 / 2,
          slice_annual_cost = 12 / 100\<rparr>],
      stack_notes = heuristic_note\<rparr>"

definition equity_stack :: capital_stack where
  "equity_stack =
     \<lparr>project_name = ''Small'', stack_tdc = 100, wacc = 12 / 100,
      slices =
        [\<lparr>option_name = ''Common'', slice_kind = Equity, amount = 100, share = 1,
          slice_annual_cost = 12 / 100\<rparr>],
      stack_notes = heuristic_note\<rparr>"

text \<open>Instruments counted toward the covenant: a mezzanine loan and a senior loan for
  a run that strips the first and cuts the second, a preferred-equity instrument, and
  two loans that share the name \<open>S\<close>; common equity with the schema's example floor of
  10 percent; and the stacks returned for them.\<close>

definition counted :: "string \<Rightarrow> kind \<Rightarrow> real \<Rightarrow> real \<Rightarrow> capital_option" where
  "counted n k c cap =
     \<lparr>name = n, kind = k, annual_cost = c, points = 0, min_share = 0, max_share = cap,
      opt_max_ltc = None, enforce_dscr = True\<rparr>"

definition floor_equity :: capital_option where
  "floor_equity =
     \<lparr>name = ''Common'', kind = Equity, annual_cost = 12 / 100, points = 0,
      min_share = 1 / 10, max_share = 1, opt_max_ltc = None, enforce_dscr = False\<rparr>"

definition tiered_options :: "capital_option list" where
  "tiered_options =
     [counted ''Mezz'' Mezz (10 / 100) (1 / 5), counted ''Senior'' Debt (6 / 100) (2 / 5),
      floor_equity]"

definition tiered_project :: project where
  "tiered_project = small_project\<lparr>noi := 2\<rparr>"

definition tiered_before :: "allocation list" where
  "tiered_before =
     [(floor_equity, 10), (counted ''Senior'' Debt (6 / 100) (2 / 5), 40),
      (counted ''Mezz'' Mezz (10 / 100) (1 / 5), 20), (floor_equity, 30)]"

definition tiered_after :: "allocation list" where
  "tiered_after =
     [(floor_equity, 10), (counted ''Senior'' Debt (6 / 100) (2 / 5), 80 / 3),
      (counted ''Mezz'' Mezz (10 / 100) (1 / 5), 0), (floor_equity, 30),
      (floor_equity, 100 / 3)]"

definition tiered_stack :: capital_stack where
  "tiered_stack =
     \<lparr>project_name = ''Small'', stack_tdc = 100, wacc = 13 / 125,
      slices =
        [\<lparr>option_name = ''Common'', slice_kind = Equity, amount = 220 / 3, share = 11 / 15,
          slice_annual_cost = 12 / 100\<rparr>,
         \<lparr>option_name = ''Senior'', slice_kind = Debt, amount = 80 / 3, share = 4 / 15,
          slice_annual_cost = 6 / 100\<rparr>],
      stack_notes = heuristic_note\<rparr>"

definition pref_options :: "capital_option list" where
  "pref_options = [counted ''Pref'' Pref (9 / 100) 1, floor_equity]"

definition pref_project :: project where
  "pref_project = small_project\<lparr>noi := 1\<rparr>"

definition pref_stack :: capital_stack where
  "pref_stack =
     \<lparr>project_name = ''Small'', stack_tdc = 100, wacc = 93 / 1000,
      slices =
        [\<lparr>option_name = ''Common'', slice_kind = Equity, amount = 10, share = 1 / 10,
          slice_annual_cost = 12 / 100\<rparr>,
         \<lparr>option_name = ''Pref'', slice_kind = Pref, amount = 90, share = 9 / 10,
          slice_annual_cost = 9 / 100\<rparr>],
      stack_notes = heuristic_note\<rparr>"

definition twin_options :: "capital_option list" where
  "twin_options =
     [counted ''S'' Debt (5 / 100) (3 / 10), counted ''S'' Debt (10 / 100) (6 / 10),
      floor_equity]"

definition twin_project :: project where
  "twin_project = small_project\<lparr>noi := 25 / 8\<rparr>"

definition twin_stack :: capital_stack where
  "twin_stack =
     \<lparr>project_name = ''Small'', stack_tdc = 100, wacc = 107 / 1000,
      slices =
        [\<lparr>option_name = ''Common'', slice_kind = Equity, amount = 60, share = 3 / 5,
          slice_annual_cost = 12 / 100\<rparr>,
         \<lparr>option_name = ''S'', slice_kind = Debt, amount = 10, share = 1 / 10,
          slice_annual_cost = 5 / 100\<rparr>,
         \<lparr>option_name = ''S'', slice_kind = Debt, amount = 30, share = 3 / 10,
          slice_annual_cost = 10 / 100\<rparr>],
      stack_notes = heuristic_note\<rparr>"

section \<open>Evaluation\<close>

lemmas allocator_defs =
  optimize_stack_def eff_cost_def allocated_def is_debt_def
  ensure_equity_minimum_def force_equity_fill_def total_annual_debt_def
  total_debt_amount_def fill_with_equity_def enforce_max_ltc_def dscr_debts_def
  enforce_dscr_covenant_def make_slice_def build_stack_def compute_dscr_def
  float_div_def float_overflow_def rate_less_def Let_def

lemmas example_defs =
  example_project_def senior_debt_def common_equity_opt_def example_stack_def
  small_project_def instrument_def heuristic_note_def dscr_project_def dscr_stack_def
  enforced_debt_def thin_debt_def thin_project_def idle_project_def thin_stack_def
  equity_stack_def counted_def floor_equity_def tiered_options_def tiered_before_def
  tiered_after_def tiered_stack_def pref_options_def pref_stack_def twin_options_def
  twin_stack_def tiered_project_def pref_project_def twin_project_def

lemma example_run:
  "optimize_stack example_project [senior_debt, common_equity_opt] (1 / 100) = Inr example_stack"
  by (simp add: allocator_defs example_defs)

section \<open>Runs that break the funding contract\<close>

text \<open>
  C1 (failing input). Preferred equity at 9 percent and common equity at 12 percent,
  both uncapped, for the small project. The allocation (90, 10) meets every
  constraint, so the input is feasible. The second pass gives all 100 to the cheaper
  preferred equity; the equity minimum then adds 10 of common equity and leaves
  \<open>remaining = -10\<close>, which no later step takes back: the returned slices add up to
  110 for a \<open>tdc\<close> of 100.
\<close>

theorem optimize_stack_overfunds:
  "optimize_stack small_project
     [instrument ''Pref'' Pref (9 / 100), instrument ''Common'' Equity (12 / 100)] (1 / 100)
   = Inr \<lparr>project_name = ''Small'', stack_tdc = 100, wacc = 51 / 500,
          slices =
            [\<lparr>option_name = ''Pref'', slice_kind = Pref, amount = 100, share = 1,
              slice_annual_cost = 9 / 100\<rparr>,
             \<lparr>option_name = ''Common'', slice_kind = Equity, amount = 10, share = 1 / 10,
              slice_annual_cost = 12 / 100\<rparr>],
          stack_notes = heuristic_note\<rparr>"
  by (simp add: allocator_defs example_defs)

text \<open>
  C5 (failing input). A single uncapped senior loan and no equity instrument. The
  second pass funds the whole \<open>tdc\<close> with debt, so the residual force-fill and its
  check for a missing equity instrument are skipped; the debt exceeds the LTC cap, the
  correction shrinks it and then reads \<open>common_equity.max_share\<close> of \<open>None\<close>: the
  call ends in an \<open>AttributeError\<close>, not in an \<open>HTTPException\<close>.
\<close>

theorem optimize_stack_no_equity_ltc:
  "optimize_stack small_project [instrument ''Senior'' Debt (6 / 100)] (1 / 100)
   = Inl AttributeError"
  by (simp add: allocator_defs example_defs)

text \<open>The same happens in the DSCR correction when the loan counts toward the
  covenant and the project has no income.\<close>

lemma optimize_stack_no_equity_dscr:
  "optimize_stack (small_project\<lparr>noi := 0, max_ltc := Some 1\<rparr>)
     [(instrument ''Senior'' Debt (6 / 100))\<lparr>enforce_dscr := True\<rparr>] (1 / 100)
   = Inl AttributeError"
  by (simp add: allocator_defs example_defs)

text \<open>And a residual that equity cannot absorb in full is filled in part and then
  forgotten: common equity capped at a share of one half, with a per-instrument
  \<open>max_ltc\<close> of 0.3, yields a stack of 50 for a \<open>tdc\<close> of 100.\<close>

lemma optimize_stack_partial_fill:
  "optimize_stack small_project
     [(instrument ''Common'' Equity (12 / 100))\<lparr>max_share := 1 / 2, opt_max_ltc := Some (3 / 10)\<rparr>]
     (1 / 100)
   = Inr \<lparr>project_name = ''Small'', stack_tdc = 100, wacc = 3 / 50,
          slices =
            [\<lparr>option_name = ''Common'', slice_kind = Equity, amount = 50, share = 1 / 2,
              slice_annual_cost = 12 / 100\<rparr>],
          stack_notes = heuristic_note\<rparr>"
  by (simp add: allocator_defs example_defs)

text \<open>The four messages of the \<open>HTTPException\<close>s are pairwise different.\<close>

lemma funding_messages_distinct:
  "distinct [''No equity option to complete the stack'',
             ''Constraints too tight to fully fund the stack'',
             ''Equity caps too tight to replace reduced debt'',
             ''Equity caps too tight to hit DSCR'']"
  by simp

text \<open>
  C8 (failing input). Preferred equity with a per-instrument \<open>max_ltc\<close> of 0.3 next to
  common equity with a minimum share of 0.1. The second pass applies the ceiling
  whatever the kind: with it the stack is 30 preferred and 70 common, without it 90
  preferred and 10 common.
\<close>

theorem optimize_stack_pref_max_ltc:
  "optimize_stack small_project
     [(instrument ''Pref'' Pref (9 / 100))\<lparr>opt_max_ltc := Some (3 / 10)\<rparr>,
      (instrument ''Common'' Equity (12 / 100))\<lparr>min_share := 1 / 10\<rparr>] (1 / 100)
   = Inr \<lparr>project_name = ''Small'', stack_tdc = 100, wacc = 111 / 1000,
          slices =
            [\<lparr>option_name = ''Common'', slice_kind = Equity, amount = 70, share = 7 / 10,
              slice_annual_cost = 12 / 100\<rparr>,
             \<lparr>option_name = ''Pref'', slice_kind = Pref, amount = 30, share = 3 / 10,
              slice_annual_cost = 9 / 100\<rparr>],
          stack_notes = heuristic_note\<rparr>
   \<and>
   optimize_stack small_project
     [(instrument ''Pref'' Pref (9 / 100))\<lparr>opt_max_ltc := None\<rparr>,
      (instrument ''Common'' Equity (12 / 100))\<lparr>min_share := 1 / 10\<rparr>] (1 / 100)
   = Inr \<lparr>project_name = ''Small'', stack_tdc = 100, wacc = 93 / 1000,
          slices =
            [\<lparr>option_name = ''Common'', slice_kind = Equity, amount = 10, share = 1 / 10,
              slice_annual_cost = 12 / 100\<rparr>,
             \<lparr>option_name = ''Pref'', slice_kind = Pref, amount = 90, share = 9 / 10,
              slice_annual_cost = 9 / 100\<rparr>],
          stack_notes = heuristic_note\<rparr>"
  by (simp add: allocator_defs example_defs)

section \<open>The DSCR calculator: properties\<close>

lemma float_overflow_pos: "0 < float_overflow"
  by (simp add: float_overflow_def)

text \<open>
  C6 (as amended). For finite floats \<open>noi \<ge> 0\<close> and \<open>annual_debt_service \<ge> 0\<close> the
  DSCR calculator raises no error; it returns positive infinity exactly when the annual
  debt service is zero or the quotient \<open>noi / annual_debt_service\<close> overflows the float
  range (is \<open>2^1024 - 2^970\<close> or more), and it returns \<open>noi / annual_debt_service\<close>
  otherwise. The zero test comes before the division, so the \<open>ZeroDivisionError\<close> of
  the division is never raised.
\<close>

theorem compute_dscr_contract:
  assumes "0 \<le> n" and "0 \<le> s"
  shows "(\<exists>d. compute_dscr n s = Inr d) \<and>
         (compute_dscr n s = Inr PosInf \<longleftrightarrow> s = 0 \<or> float_overflow \<le> n / s) \<and>
         (s \<noteq> 0 \<and> n / s < float_overflow \<longrightarrow> compute_dscr n s = Inr (Finite (n / s)))"
proof -
  have "0 \<le> n / s" using assms by simp
  then have "\<not> n / s \<le> - float_overflow"
    using float_overflow_pos by linarith
  then show ?thesis
    using float_overflow_pos by (auto simp: compute_dscr_def float_div_def)
qed

theorem compute_dscr_contract_witness:
  "(0 :: real) \<le> 900000 \<and> (0 :: real) \<le> 390000 \<and>
   compute_dscr 900000 0 = Inr PosInf \<and>
   compute_dscr 900000 390000 = Inr (Finite (900000 / 390000))"
  using compute_dscr_contract [of 900000 0] compute_dscr_contract [of 900000 390000]
  by (simp add: float_overflow_def)

text \<open>
  C6 (counterexample). \<open>noi = 1e308\<close> and \<open>annual_debt_service = 0.1\<close> are finite,
  non-negative floats. Their quotient, about \<open>1e309\<close>, is above the largest float
  (about \<open>1.8e308\<close>): the division returns infinity although the debt service is not
  zero.
\<close>

theorem compute_dscr_overflow_counterexample:
  "(0 :: real) \<le> 10 ^ 308 \<and> (0 :: real) \<le> 1 / 10 \<and> (1 / 10 :: real) \<noteq> 0 \<and>
   compute_dscr (10 ^ 308) (1 / 10) = Inr PosInf"
  by (simp add: compute_dscr_def float_div_def float_overflow_def)

section \<open>The shape of a successful run\<close>

lemma optimize_stack_InrD:
  assumes "optimize_stack p options g = Inr st"
  shows "\<exists>st4 st5 st6.
           force_equity_fill (tdc p) (find (\<lambda>o1. kind o1 = Equity) options)
             (ensure_equity_minimum p (find (\<lambda>o1. kind o1 = Equity) options)
               (second_pass (tdc p) (sort_key eff_cost options)
                 (first_pass (tdc p) (sort_key eff_cost options) ([], tdc p)))) = Inr st4
         \<and> enforce_max_ltc p (find (\<lambda>o1. kind o1 = Equity) options)
             (total_debt_amount (fst st4)) st4 = Inr st5
         \<and> enforce_dscr_covenant p (find (\<lambda>o1. kind o1 = Equity) options)
             (total_annual_debt (fst st4)) st5 = Inr st6
         \<and> build_stack p (fst st6) = Inr st"
  using assms unfolding optimize_stack_def Let_def
  by (cases "force_equity_fill (tdc p) (find (\<lambda>o1. kind o1 = Equity) options)
             (ensure_equity_minimum p (find (\<lambda>o1. kind o1 = Equity) options)
               (second_pass (tdc p) (sort_key eff_cost options)
                 (first_pass (tdc p) (sort_key eff_cost options) ([], tdc p))))")
     (auto split: sum.splits)

section \<open>Slices and WACC\<close>

lemma fold_add_sum_list:
  "fold (\<lambda>x acc. acc + f x) xs (a :: real) = a + sum_list (map f xs)"
  by (induction xs arbitrary: a) simp_all

lemma build_stack_slices:
  assumes "build_stack p al = Inr st"
  shows "slices st = map (make_slice (tdc p)) (aggregate al [])"
    and "wacc st = sum_list (map (\<lambda>e. snd e * snd (snd (fst e))) (aggregate al [])) / tdc p"
    and "tdc p \<noteq> 0"
proof -
  have eq: "(\<lambda>((n, k, c), amt) acc. acc + amt * c)
            = (\<lambda>x acc. (acc :: real) + snd x * snd (snd (fst x)))"
    by (auto simp: fun_eq_iff)
  from assms show "slices st = map (make_slice (tdc p)) (aggregate al [])"
    by (auto simp: build_stack_def Let_def split: if_splits)
  from assms show "tdc p \<noteq> 0"
    by (auto simp: build_stack_def Let_def split: if_splits)
  from assms have "wacc st = fold (\<lambda>((n, k, c), amt) acc. acc + amt * c) (aggregate al []) 0 / tdc p"
    by (auto simp: build_stack_def Let_def split: if_splits)
  then show "wacc st = sum_list (map (\<lambda>e. snd e * snd (snd (fst e))) (aggregate al [])) / tdc p"
    unfolding eq by (simp add: fold_add_sum_list)
qed

lemma make_slice_fields:
  "option_name (make_slice t e) = fst (fst e)"
  "slice_kind (make_slice t e) = fst (snd (fst e))"
  "slice_annual_cost (make_slice t e) = snd (snd (fst e))"
  "amount (make_slice t e) = snd e"
  "share (make_slice t e) = snd e / t"
  by (simp_all add: make_slice_def split: prod.splits)

text \<open>
  C7. In every stack that \<open>optimize_stack\<close> returns, each slice's share is its amount
  divided by the project's \<open>tdc\<close>, and the stack's \<open>wacc\<close> is the sum over the slices of
  amount times annual cost, divided by \<open>tdc\<close>. (Exactly: over the reals of the model.)
\<close>

theorem share_and_wacc_exact:
  assumes "optimize_stack p options g = Inr st"
  shows "(\<forall>s \<in> set (slices st). share s = amount s / tdc p) \<and>
         wacc st = (\<Sum>s\<leftarrow>slices st. amount s * slice_annual_cost s) / tdc p"
proof -
  from optimize_stack_InrD [OF assms] obtain al where b: "build_stack p al = Inr st"
    by blast
  have "\<forall>s \<in> set (slices st). share s = amount s / tdc p"
    by (auto simp: build_stack_slices(1) [OF b] make_slice_fields)
  moreover have "wacc st = (\<Sum>s\<leftarrow>slices st. amount s * slice_annual_cost s) / tdc p"
    by (simp add: build_stack_slices(1,2) [OF b] make_slice_fields comp_def)
  ultimately show ?thesis by blast
qed

theorem share_and_wacc_exact_witness:
  "optimize_stack example_project [senior_debt, common_equity_opt] (1 / 100) = Inr example_stack \<and>
   list_all (\<lambda>s. share s = amount s / tdc example_project) (slices example_stack) \<and>
   wacc example_stack
     = (\<Sum>s\<leftarrow>slices example_stack. amount s * slice_annual_cost s) / tdc example_project"
  using share_and_wacc_exact [OF example_run] example_run
  by (simp add: list_all_iff)

section \<open>Sums over slices are sums over the ledger\<close>

lemma kept_Nil [simp]: "kept w [] = 0"
  by (simp add: kept_def)

lemma kept_Cons [simp]:
  "kept w ((o1, a) # al) = (if a > 1 / 1000000 then w o1 * a else 0) + kept w al"
  by (simp add: kept_def)

lemma kept_append [simp]: "kept w (al @ bl) = kept w al + kept w bl"
  by (simp add: kept_def)

lemma ite_mult:
  "(if c then a else 0) * (x :: real) = (if c then a * x else 0)"
  "x * (if c then a else 0) = (if c then x * a else 0)"
  by simp_all

lemma agg_add_sum:
  "(\<Sum>e\<leftarrow>agg_add k a agg. f (fst e) * snd e) = (\<Sum>e\<leftarrow>agg. f (fst e) * snd e) + f k * (a :: real)"
  by (induction agg) (auto simp: algebra_simps)

lemma aggregate_sum:
  "(\<Sum>e\<leftarrow>aggregate al agg. f (fst e) * snd e)
   = (\<Sum>e\<leftarrow>agg. f (fst e) * snd e) + kept (\<lambda>o1. f (name o1, kind o1, annual_cost o1)) al"
  by (induction al agg rule: aggregate.induct) (auto simp: agg_add_sum)

lemma slices_weighted_sum:
  assumes "build_stack p al = Inr st"
  shows "(\<Sum>s\<leftarrow>slices st. f (option_name s) (slice_kind s) (slice_annual_cost s) * amount s)
         = kept (\<lambda>o1. f (name o1) (kind o1) (annual_cost o1)) al"
  using aggregate_sum [of "\<lambda>(n, k, c). f n k c" al "[]"]
  by (simp add: build_stack_slices(1) [OF assms] make_slice_fields comp_def case_prod_beta)

lemma debt_amount_kept:
  assumes "build_stack p al = Inr st"
  shows "debt_amount st = kept (\<lambda>o1. if is_debt o1 then 1 else 0) al"
  using slices_weighted_sum [OF assms, of "\<lambda>n k c. if k = Debt \<or> k = Mezz then 1 else 0"]
  by (simp add: debt_amount_def sum_list_map_filter' is_debt_def ite_mult cong: if_cong)

lemma option_amount_kept:
  assumes "build_stack p al = Inr st"
  shows "option_amount opt st = kept (same_slice opt) al"
  using slices_weighted_sum [OF assms,
      of "\<lambda>n k c. if n = name opt \<and> k = kind opt \<and> c = annual_cost opt then 1 else 0"]
  by (simp add: option_amount_def same_slice_def [abs_def] sum_list_map_filter' ite_mult cong: if_cong)

lemma enforced_debt_service_kept:
  assumes "build_stack p al = Inr st"
  shows "enforced_debt_service options st
         = kept (\<lambda>o1. if is_debt o1 \<and> dscr_enforced options (name o1) then annual_cost o1 else 0) al"
  using slices_weighted_sum [OF assms,
      of "\<lambda>n k c. if (k = Debt \<or> k = Mezz) \<and> dscr_enforced options n then c else 0"]
  by (simp add: enforced_debt_service_def sum_list_map_filter' is_debt_def ite_mult mult.commute
           cong: if_cong)

section \<open>The granularity parameter\<close>

text \<open>
  \<open>optimize_stack\<close> accepts \<open>granularity\<close> and never reads it: the result, stack or
  failure, is the same whatever its value. That the function is deterministic and
  carries no state between calls (C9) is not a statement about this embedding: a HOL
  function returns equal results at equal arguments whatever it computes, so such a
  statement holds of every translation of the code, right or wrong.
\<close>

lemma optimize_stack_ignores_granularity:
  "optimize_stack p options g = optimize_stack p options g'"
  by (simp add: optimize_stack_def)

section \<open>The passes only append\<close>

lemma optimize_stack_InrD2:
  assumes "optimize_stack p options g = Inr st"
  shows "\<exists>st4 st5 st6.
           funded_ledger p options = Inr st4
         \<and> enforce_max_ltc p (common_equity_of options) (total_debt_amount (fst st4)) st4 = Inr st5
         \<and> enforce_dscr_covenant p (common_equity_of options) (total_annual_debt (fst st4)) st5 = Inr st6
         \<and> build_stack p (fst st6) = Inr st"
  using optimize_stack_InrD [OF assms] by (simp add: funded_ledger_def common_equity_of_def Let_def)

lemma first_pass_shape:
  "\<exists>new. fst (first_pass t opts (al, r)) = al @ new \<and> subseq (map fst new) opts \<and>
         (\<forall>e\<in>set new. 0 < snd e)"
proof (induction opts arbitrary: al r)
  case Nil
  then show ?case by simp
next
  case (Cons opt opts)
  let ?use = "min (min (max (min_share opt * t) 0) (max_share opt * t)) r"
  show ?case
  proof (cases "0 < max (min_share opt * t) 0 \<and> 0 < ?use")
    case True
    from Cons.IH [of "al @ [(opt, ?use)]" "r - ?use"] obtain new where
      n: "fst (first_pass t opts (al @ [(opt, ?use)], r - ?use)) = (al @ [(opt, ?use)]) @ new"
         "subseq (map fst new) opts" "\<forall>e\<in>set new. 0 < snd e" by blast
    have "fst (first_pass t (opt # opts) (al, r)) = al @ ((opt, ?use) # new)"
      using True n(1) by (simp add: Let_def)
    moreover have "subseq (map fst ((opt, ?use) # new)) (opt # opts)"
      using n(2) by simp
    moreover have "\<forall>e\<in>set ((opt, ?use) # new). 0 < snd e"
      using True n(3) by simp
    ultimately show ?thesis by blast
  next
    case False
    from Cons.IH [of al r] obtain new where
      n: "fst (first_pass t opts (al, r)) = al @ new"
         "subseq (map fst new) opts" "\<forall>e\<in>set new. 0 < snd e" by blast
    have "fst (first_pass t (opt # opts) (al, r)) = al @ new"
      using False n(1) by (auto simp: Let_def)
    moreover have "subseq (map fst new) (opt # opts)"
      using n(2) by (rule list_emb_Cons)
    ultimately show ?thesis using n(3) by blast
  qed
qed

lemma second_pass_Cons:
  "second_pass t (opt # opts) (al, r) =
     (if r \<le> 1 / 1000000 then (al, r)
      else if second_add t opt al r > 1 / 1000000
           then second_pass t opts (al @ [(opt, second_add t opt al r)], r - second_add t opt al r)
           else second_pass t opts (al, r))"
  by (simp only: second_pass.simps Let_def second_add_def)

lemma second_pass_shape:
  "\<exists>new. fst (second_pass t opts (al, r)) = al @ new \<and> subseq (map fst new) opts \<and>
         (\<forall>e\<in>set new. 1 / 1000000 < snd e)"
proof (induction opts arbitrary: al r)
  case Nil
  then show ?case by simp
next
  case (Cons opt opts)
  let ?add = "second_add t opt al r"
  consider (stop) "r \<le> 1 / 1000000" | (add) "\<not> r \<le> 1 / 1000000" "?add > 1 / 1000000"
    | (skip) "\<not> r \<le> 1 / 1000000" "\<not> ?add > 1 / 1000000" by blast
  then show ?case
  proof cases
    case stop
    then have "fst (second_pass t (opt # opts) (al, r)) = al @ []"
      by (simp add: second_pass_Cons del: second_pass.simps)
    moreover have "subseq (map fst ([] :: allocation list)) (opt # opts)" by simp
    moreover have "\<forall>e\<in>set ([] :: allocation list). 1 / 1000000 < snd e" by simp
    ultimately show ?thesis by blast
  next
    case add
    from Cons.IH [of "al @ [(opt, ?add)]" "r - ?add"] obtain new where
      n: "fst (second_pass t opts (al @ [(opt, ?add)], r - ?add)) = (al @ [(opt, ?add)]) @ new"
         "subseq (map fst new) opts" "\<forall>e\<in>set new. 1 / 1000000 < snd e" by blast
    have "fst (second_pass t (opt # opts) (al, r)) = al @ ((opt, ?add) # new)"
      using add n(1) by (simp add: second_pass_Cons del: second_pass.simps)
    moreover have "subseq (map fst ((opt, ?add) # new)) (opt # opts)"
      using n(2) by simp
    moreover have "\<forall>e\<in>set ((opt, ?add) # new). 1 / 1000000 < snd e"
      using add n(3) by simp
    ultimately show ?thesis by blast
  next
    case skip
    from Cons.IH [of al r] obtain new where
      n: "fst (second_pass t opts (al, r)) = al @ new"
         "subseq (map fst new) opts" "\<forall>e\<in>set new. 1 / 1000000 < snd e" by blast
    have "fst (second_pass t (opt # opts) (al, r)) = al @ new"
      using skip n(1) by (simp add: second_pass_Cons del: second_pass.simps)
    moreover have "subseq (map fst new) (opt # opts)"
      using n(2) by (rule list_emb_Cons)
    ultimately show ?thesis using n(3) by blast
  qed
qed

lemma ensure_equity_minimum_shape:
  "fst (ensure_equity_minimum p ce (al, r)) = al \<or>
   (\<exists>e adj. ce = Some e \<and> 0 < adj \<and> fst (ensure_equity_minimum p ce (al, r)) = al @ [(e, adj)])"
  by (auto simp: ensure_equity_minimum_def Let_def split: option.splits)

lemma force_equity_fill_shape:
  assumes "force_equity_fill t ce (al, r) = Inr (al', r')"
  shows "al' = al \<or> (\<exists>e add. ce = Some e \<and> 0 < add \<and> al' = al @ [(e, add)])"
  using assms
  by (auto simp: force_equity_fill_def Let_def split: option.splits if_splits)

lemma find_Some_kind:
  "find (\<lambda>o1. kind o1 = Equity) options = Some e \<Longrightarrow> kind e = Equity \<and> e \<in> set options"
  by (auto simp: find_Some_iff)

lemma subseq_set: "subseq xs ys \<Longrightarrow> set xs \<subseteq> set ys"
  by (induction rule: list_emb.induct) auto

lemma funded_ledger_parts:
  assumes "funded_ledger p options = Inr (al, r)"
  shows "\<exists>new1 new2 eq.
           al = new1 @ new2 @ eq \<and>
           subseq (map fst new1) (sort_key eff_cost options) \<and>
           subseq (map fst new2) (sort_key eff_cost options) \<and>
           (\<forall>e\<in>set new1. 0 < snd e) \<and> (\<forall>e\<in>set new2. 1 / 1000000 < snd e) \<and>
           (\<forall>e\<in>set eq. 0 < snd e \<and> common_equity_of options = Some (fst e))"
proof -
  let ?so = "sort_key eff_cost options"
  let ?ce = "find (\<lambda>o1. kind o1 = Equity) options"
  obtain r1 new1 where 1: "first_pass (tdc p) ?so ([], tdc p) = (new1, r1)"
    "subseq (map fst new1) ?so" "\<forall>e\<in>set new1. 0 < snd e"
    using first_pass_shape [of "tdc p" ?so "[]" "tdc p"]
    by (cases "first_pass (tdc p) ?so ([], tdc p)") auto
  obtain r2 new2 where 2: "second_pass (tdc p) ?so (new1, r1) = (new1 @ new2, r2)"
    "subseq (map fst new2) ?so" "\<forall>e\<in>set new2. 1 / 1000000 < snd e"
    using second_pass_shape [of "tdc p" ?so new1 r1]
    by (cases "second_pass (tdc p) ?so (new1, r1)") auto
  obtain al3 r3 where 3: "ensure_equity_minimum p ?ce (new1 @ new2, r2) = (al3, r3)"
    by (cases "ensure_equity_minimum p ?ce (new1 @ new2, r2)") auto
  have f: "force_equity_fill (tdc p) ?ce (al3, r3) = Inr (al, r)"
    using assms 1(1) 2(1) 3 by (simp add: funded_ledger_def Let_def)
  from ensure_equity_minimum_shape [of p ?ce "new1 @ new2" r2] 3
  obtain eq3 where e3: "al3 = (new1 @ new2) @ eq3"
    "\<forall>e\<in>set eq3. 0 < snd e \<and> ?ce = Some (fst e)"
    by (cases "al3 = new1 @ new2") auto
  from force_equity_fill_shape [OF f]
  obtain eq4 where e4: "al = al3 @ eq4" "\<forall>e\<in>set eq4. 0 < snd e \<and> ?ce = Some (fst e)"
    by (cases "al = al3") auto
  have "al = new1 @ new2 @ (eq3 @ eq4)" using e3(1) e4(1) by simp
  moreover have "\<forall>e\<in>set (eq3 @ eq4). 0 < snd e \<and> common_equity_of options = Some (fst e)"
    using e3(2) e4(2) by (auto simp: common_equity_of_def)
  ultimately show ?thesis using 1(2,3) 2(2,3) by blast
qed

lemma funded_ledger_shape:
  assumes "funded_ledger p options = Inr (al, r)"
  shows "\<forall>e\<in>set al. 0 < snd e \<and> fst e \<in> set options"
proof -
  from funded_ledger_parts [OF assms] obtain new1 new2 eq where
    p: "al = new1 @ new2 @ eq"
       "subseq (map fst new1) (sort_key eff_cost options)"
       "subseq (map fst new2) (sort_key eff_cost options)"
       "\<forall>e\<in>set new1. 0 < snd e" "\<forall>e\<in>set new2. 1 / 1000000 < snd e"
       "\<forall>e\<in>set eq. 0 < snd e \<and> common_equity_of options = Some (fst e)"
    by blast
  have "\<forall>e\<in>set new1. fst e \<in> set options"
    using subseq_set [OF p(2)] by auto
  moreover have "\<forall>e\<in>set new2. fst e \<in> set options"
    using subseq_set [OF p(3)] by auto
  moreover have "\<forall>e\<in>set eq. fst e \<in> set options"
    using p(6) find_Some_kind by (auto simp: common_equity_of_def)
  moreover have "\<forall>e\<in>set new2. 0 < snd e"
    using p(5) by fastforce
  ultimately show ?thesis using p(1,4,6) by auto
qed

subsection \<open>LTC correction\<close>

lemma total_debt_amount_Cons [simp]:
  "total_debt_amount [] = 0"
  "total_debt_amount ((o1, a) # al) = (if is_debt o1 then a else 0) + total_debt_amount al"
  by (simp_all add: total_debt_amount_def)

lemma total_debt_amount_append [simp]:
  "total_debt_amount (al @ bl) = total_debt_amount al + total_debt_amount bl"
  by (simp add: total_debt_amount_def)

lemma reduce_debt_eq:
  "reduce_debt rho al r = (map (shrink_debt rho) al, r + rho * total_debt_amount al)"
  by (induction rho al r rule: reduce_debt.induct)
     (simp_all add: shrink_debt_def Let_def algebra_simps)

lemma fill_with_equity_InrD:
  assumes "fill_with_equity d t ce (al, r) = Inr (al', r')"
  shows "\<exists>e. ce = Some e \<and>
             al' = al @ [(e, min (max_share e * t - allocated (name e) al) r)] \<and>
             r - 1 / 1000000 \<le> min (max_share e * t - allocated (name e) al) r \<and>
             r' = r - min (max_share e * t - allocated (name e) al) r"
  using assms
  by (auto simp: fill_with_equity_def Let_def split: option.splits if_splits)

lemma enforce_max_ltc_InrD:
  assumes "enforce_max_ltc p ce td (al, r) = Inr (al', r')"
  shows "(al' = al \<and> r' = r \<and> (\<forall>l. max_ltc p = Some l \<longrightarrow> td \<le> l * tdc p)) \<or>
         (\<exists>l e rho add. max_ltc p = Some l \<and> l * tdc p < td \<and> ce = Some e \<and>
            rho = (td - l * tdc p) / max td (1 / 1000000000) \<and>
            add = min (max_share e * tdc p - allocated (name e) (map (shrink_debt rho) al))
                      (r + rho * total_debt_amount al) \<and>
            r + rho * total_debt_amount al - 1 / 1000000 \<le> add \<and>
            al' = map (shrink_debt rho) al @ [(e, add)] \<and>
            r' = r + rho * total_debt_amount al - add)"
proof (cases "max_ltc p")
  case None
  then show ?thesis using assms by (simp add: enforce_max_ltc_def)
next
  case (Some l)
  show ?thesis
  proof (cases "l * tdc p < td")
    case False
    then show ?thesis using assms Some by (simp add: enforce_max_ltc_def)
  next
    case True
    let ?rho = "(td - l * tdc p) / max td (1 / 1000000000)"
    have "fill_with_equity ''Equity caps too tight to replace reduced debt'' (tdc p) ce
            (map (shrink_debt ?rho) al, r + ?rho * total_debt_amount al) = Inr (al', r')"
      using assms Some True
      by (simp only: enforce_max_ltc_def Let_def reduce_debt_eq prod.case option.case if_True)
    from fill_with_equity_InrD [OF this] Some True show ?thesis by blast
  qed
qed

subsection \<open>DSCR correction: what it can only lower\<close>

lemma apply_reduction_fst [simp]:
  "map fst (apply_reduction n a tp al) = map fst al"
  by (induction al) auto

lemma apply_reduction_kept_le:
  assumes "0 \<le> tp" and "\<And>o1. 0 \<le> w o1"
  shows "kept w (apply_reduction n a tp al) \<le> kept w al"
proof (induction al)
  case Nil
  then show ?case by simp
next
  case (Cons e al)
  obtain oo aa where e: "e = (oo, aa)" by (cases e)
  have m: "w oo * (aa - tp) \<le> w oo * aa"
    using assms by (simp add: mult_left_mono)
  have z: "aa > 1 / 1000000 \<Longrightarrow> 0 \<le> w oo * aa"
    using assms(2) [of oo] by simp
  show ?case
  proof (cases "name oo = n \<and> \<bar>aa - a\<bar> < 1 / 1000000000")
    case True
    then show ?thesis using m z assms(1) by (auto simp add: e)
  next
    case False
    then show ?thesis using Cons.IH by (auto simp add: e)
  qed
qed

lemma take_principal_nonneg:
  assumes "0 \<le> a" "0 < d" "c \<noteq> 0"
  shows "0 \<le> min (a * c) d / (c :: real)"
proof (cases "0 < c")
  case True
  then have "0 \<le> min (a * c) d" using assms by simp
  then show ?thesis using True by simp
next
  case False
  then have c: "c < 0" using assms by simp
  then have "a * c \<le> 0" using assms(1) by (simp add: mult_nonneg_nonpos)
  then have "min (a * c) d = a * c" using assms(2) by simp
  then show ?thesis using c assms(1) by simp
qed

lemma reduce_dscr_debts_kept_le:
  assumes "reduce_dscr_debts ds al d r = Inr (al', r')"
    and "\<forall>e\<in>set ds. 0 \<le> snd e" and "\<And>o1. 0 \<le> w o1"
  shows "kept w al' \<le> kept w al"
  using assms(1,2)
proof (induction ds al d r rule: reduce_dscr_debts.induct)
  case (1 al d r)
  then show ?case by simp
next
  case (2 o1 a ds al d r)
  show ?case
  proof (cases "d \<le> 1 / 1000000")
    case True
    then show ?thesis using "2.prems" by simp
  next
    case False
    have c: "annual_cost o1 \<noteq> 0"
      using "2.prems"(1) False by (auto simp: Let_def split: if_splits)
    let ?tp = "min (a * annual_cost o1) d / annual_cost o1"
    have rec: "reduce_dscr_debts ds (apply_reduction (name o1) a ?tp al)
                 (d - min (a * annual_cost o1) d) (r + ?tp) = Inr (al', r')"
      using "2.prems"(1) False c by (simp add: Let_def)
    have tp: "0 \<le> ?tp"
      using take_principal_nonneg [of a d "annual_cost o1"] "2.prems"(2) False c by simp
    have "kept w al' \<le> kept w (apply_reduction (name o1) a ?tp al)"
      using "2.IH" [OF False refl refl c refl rec] "2.prems"(2) by simp
    also have "\<dots> \<le> kept w al"
      using apply_reduction_kept_le [OF tp assms(3)] .
    finally show ?thesis .
  qed
qed

lemma reduce_dscr_debts_fst:
  "reduce_dscr_debts ds al d r = Inr (al', r') \<Longrightarrow> map fst al' = map fst al"
proof (induction ds al d r rule: reduce_dscr_debts.induct)
  case (1 al d r)
  then show ?case by simp
next
  case (2 o1 a ds al d r)
  then show ?case
    by (cases "d \<le> 1 / 1000000") (auto simp: Let_def split: if_splits)
qed

lemma set_dscr_debts:
  "set (dscr_debts al) = {e \<in> set al. is_debt (fst e) \<and> enforce_dscr (fst e)}"
  by (auto simp: dscr_debts_def)

lemma compute_dscr_total: "\<exists>d. compute_dscr n a = Inr d"
  by (simp add: compute_dscr_def float_div_def)

lemma enforce_dscr_covenant_InrD:
  assumes "enforce_dscr_covenant p ce ta (al, r) = Inr (al', r')"
  shows "\<exists>d. compute_dscr (noi p) ta = Inr d \<and>
         ((al' = al \<and> r' = r \<and> \<not> rate_less d (min_dscr p)) \<or>
          (\<exists>al'' r'' e add.
             rate_less d (min_dscr p) \<and> min_dscr p \<noteq> 0 \<and>
             reduce_dscr_debts (dscr_debts al) al (max (ta - noi p / min_dscr p) 0) r
               = Inr (al'', r'') \<and>
             ce = Some e \<and> al' = al'' @ [(e, add)]))"
proof -
  obtain d where d: "compute_dscr (noi p) ta = Inr d"
    using compute_dscr_total by blast
  show ?thesis
  proof (cases "rate_less d (min_dscr p)")
    case False
    then show ?thesis using assms d by (simp add: enforce_dscr_covenant_def)
  next
    case True
    then have nz: "min_dscr p \<noteq> 0"
      using assms d by (auto simp: enforce_dscr_covenant_def)
    let ?run = "reduce_dscr_debts (dscr_debts al) al (max (ta - noi p / min_dscr p) 0) r"
    from assms True nz d obtain st' where
      st: "?run = Inr st'"
          "fill_with_equity ''Equity caps too tight to hit DSCR'' (tdc p) ce st' = Inr (al', r')"
      by (auto simp: enforce_dscr_covenant_def Let_def split: sum.splits)
    obtain al'' r'' where s: "st' = (al'', r'')" by (cases st')
    from fill_with_equity_InrD [OF st(2) [unfolded s]] st(1) s True nz d
    show ?thesis by blast
  qed
qed

subsection \<open>The LTC cap\<close>

lemma total_debt_amount_shrink:
  "total_debt_amount (map (shrink_debt rho) al) = (1 - rho) * total_debt_amount al"
  by (induction al) (auto simp: shrink_debt_def algebra_simps)

lemma kept_debt_le_total:
  assumes "\<forall>e\<in>set al. is_debt (fst e) \<longrightarrow> 0 \<le> snd e"
  shows "kept (\<lambda>o1. if is_debt o1 then 1 else 0) al \<le> total_debt_amount al"
  using assms by (induction al) auto

lemma kept_non_debt_append:
  "\<not> is_debt e \<Longrightarrow>
   kept (\<lambda>o1. if is_debt o1 then 1 else 0) (al @ [(e, x)]) = kept (\<lambda>o1. if is_debt o1 then 1 else 0) al"
  by simp

lemma ltc_ratio_bounds:
  assumes "0 \<le> cap" "cap < (td :: real)"
  shows "0 < (td - cap) / max td (1 / 1000000000)"
    and "(td - cap) / max td (1 / 1000000000) \<le> 1"
    and "(1 - (td - cap) / max td (1 / 1000000000)) * td \<le> cap + 1 / 1000000000"
proof -
  let ?m = "max td (1 / 1000000000)"
  have m: "0 < ?m" "td \<le> ?m" by simp_all
  show "0 < (td - cap) / ?m" using assms m by simp
  have "td - cap \<le> ?m" using assms m by linarith
  then show le1: "(td - cap) / ?m \<le> 1" using m by (simp add: divide_le_eq)
  show "(1 - (td - cap) / ?m) * td \<le> cap + 1 / 1000000000"
  proof (cases "1 / 1000000000 \<le> td")
    case True
    then have "?m = td" by simp
    moreover have "td \<noteq> 0" using assms by linarith
    ultimately have "(1 - (td - cap) / ?m) * td = cap"
      by (simp add: field_simps)
    then show ?thesis by simp
  next
    case False
    have "0 \<le> td" using assms by linarith
    moreover have "1 - (td - cap) / ?m \<le> 1" using assms m by simp
    ultimately have "(1 - (td - cap) / ?m) * td \<le> 1 * td"
      by (rule mult_right_mono [rotated])
    then show ?thesis using False assms by linarith
  qed
qed

lemma enforce_max_ltc_debt:
  assumes run: "enforce_max_ltc p ce (total_debt_amount al) (al, r) = Inr (al', r')"
    and ce: "\<forall>e. ce = Some e \<longrightarrow> \<not> is_debt e"
    and l: "max_ltc p = Some l" "0 \<le> l * tdc p"
    and pos: "\<forall>e\<in>set al. 0 < snd e"
  shows "total_debt_amount al' \<le> l * tdc p + 1 / 1000000000"
    and "\<forall>e\<in>set al'. is_debt (fst e) \<longrightarrow> 0 \<le> snd e"
proof -
  let ?td = "total_debt_amount al"
  from enforce_max_ltc_InrD [OF run] consider
    (same) "al' = al" "?td \<le> l * tdc p"
  | (cut) e rho add where "l * tdc p < ?td" "ce = Some e"
      "rho = (?td - l * tdc p) / max ?td (1 / 1000000000)"
      "al' = map (shrink_debt rho) al @ [(e, add)]"
    using l(1) by auto
  then have "total_debt_amount al' \<le> l * tdc p + 1 / 1000000000 \<and>
             (\<forall>e\<in>set al'. is_debt (fst e) \<longrightarrow> 0 \<le> snd e)"
  proof cases
    case same
    then show ?thesis using pos by fastforce
  next
    case cut
    note b = ltc_ratio_bounds [OF l(2) cut(1), folded cut(3)]
    have nd: "\<not> is_debt e" using ce cut(2) by simp
    have "total_debt_amount al' = (1 - rho) * ?td"
      using nd by (simp add: cut(4) total_debt_amount_shrink)
    then have 1: "total_debt_amount al' \<le> l * tdc p + 1 / 1000000000"
      using b(3) by simp
    have "\<forall>x\<in>set al. 0 \<le> snd (shrink_debt rho x)"
    proof
      fix x assume "x \<in> set al"
      then have "0 < snd x" using pos by simp
      moreover have "0 \<le> 1 - rho" using b(2) by simp
      ultimately have "0 \<le> snd x * (1 - rho)" by simp
      then show "0 \<le> snd (shrink_debt rho x)"
        using \<open>0 < snd x\<close> by (simp add: shrink_debt_def algebra_simps)
    qed
    then have 2: "\<forall>e\<in>set al'. is_debt (fst e) \<longrightarrow> 0 \<le> snd e"
      using nd by (auto simp: cut(4))
    from 1 2 show ?thesis by blast
  qed
  then show "total_debt_amount al' \<le> l * tdc p + 1 / 1000000000"
    and "\<forall>e\<in>set al'. is_debt (fst e) \<longrightarrow> 0 \<le> snd e" by blast+
qed

lemma common_equity_not_debt:
  "common_equity_of options = Some e \<Longrightarrow> \<not> is_debt e"
  using find_Some_kind [of options e] by (simp add: common_equity_of_def is_debt_def)

lemma enforce_dscr_covenant_kept_debt:
  assumes run: "enforce_dscr_covenant p (common_equity_of options) ta (al, r) = Inr (al', r')"
    and nn: "\<forall>e\<in>set al. is_debt (fst e) \<longrightarrow> 0 \<le> snd e"
  shows "kept (\<lambda>o1. if is_debt o1 then 1 else 0) al' \<le> kept (\<lambda>o1. if is_debt o1 then 1 else 0) al"
proof -
  from enforce_dscr_covenant_InrD [OF run] consider
    (same) "al' = al"
  | (cut) al'' r'' e add where
      "reduce_dscr_debts (dscr_debts al) al (max (ta - noi p / min_dscr p) 0) r = Inr (al'', r'')"
      "common_equity_of options = Some e" "al' = al'' @ [(e, add)]"
    by blast
  then show ?thesis
  proof cases
    case same
    then show ?thesis by simp
  next
    case cut
    have "\<forall>e\<in>set (dscr_debts al). 0 \<le> snd e"
      using nn by (auto simp: set_dscr_debts)
    from reduce_dscr_debts_kept_le [OF cut(1) this, of "\<lambda>o1. if is_debt o1 then 1 else 0"]
    have "kept (\<lambda>o1. if is_debt o1 then 1 else 0) al'' \<le> kept (\<lambda>o1. if is_debt o1 then 1 else 0) al"
      by simp
    then show ?thesis
      using common_equity_not_debt [OF cut(2)] by (simp add: cut(3))
  qed
qed

lemma debt_amount_bound:
  assumes run: "optimize_stack p options g = Inr st"
    and l: "max_ltc p = Some l" "0 \<le> l" "0 < tdc p"
  shows "debt_amount st \<le> l * tdc p + 1 / 1000000000"
proof -
  from optimize_stack_InrD2 [OF run] obtain al4 r4 al5 r5 al6 r6 where
    s: "funded_ledger p options = Inr (al4, r4)"
       "enforce_max_ltc p (common_equity_of options) (total_debt_amount al4) (al4, r4) = Inr (al5, r5)"
       "enforce_dscr_covenant p (common_equity_of options) (total_annual_debt al4) (al5, r5) = Inr (al6, r6)"
       "build_stack p al6 = Inr st"
    by fastforce
  have pos: "\<forall>e\<in>set al4. 0 < snd e"
    using funded_ledger_shape [OF s(1)] by blast
  have cap: "0 \<le> l * tdc p" using l by simp
  have ce: "\<forall>e. common_equity_of options = Some e \<longrightarrow> \<not> is_debt e"
    using common_equity_not_debt by blast
  note ltc = enforce_max_ltc_debt [OF s(2) ce l(1) cap pos]
  have "debt_amount st = kept (\<lambda>o1. if is_debt o1 then 1 else 0) al6"
    by (rule debt_amount_kept [OF s(4)])
  also have "\<dots> \<le> kept (\<lambda>o1. if is_debt o1 then 1 else 0) al5"
    by (rule enforce_dscr_covenant_kept_debt [OF s(3) ltc(2)])
  also have "\<dots> \<le> total_debt_amount al5"
    by (rule kept_debt_le_total [OF ltc(2)])
  also have "\<dots> \<le> l * tdc p + 1 / 1000000000"
    by (rule ltc(1))
  finally show ?thesis .
qed

section \<open>The LTC cap on the returned stack\<close>


lemma ltc_example_run:
  "optimize_stack small_project
     [instrument ''Senior'' Debt (6 / 100),
      (instrument ''Common'' Equity (12 / 100))\<lparr>min_share := 1 / 10\<rparr>] (1 / 100)
   = Inr \<lparr>project_name = ''Small'', stack_tdc = 100, wacc = 81 / 1000,
          slices =
            [\<lparr>option_name = ''Common'', slice_kind = Equity, amount = 35, share = 35 / 100,
              slice_annual_cost = 12 / 100\<rparr>,
             \<lparr>option_name = ''Senior'', slice_kind = Debt, amount = 65, share = 65 / 100,
              slice_annual_cost = 6 / 100\<rparr>],
          stack_notes = heuristic_note\<rparr>"
  by (simp add: allocator_defs example_defs)



section \<open>The equity floor\<close>

lemma allocated_Nil [simp]: "allocated n [] = 0"
  by (simp add: allocated_def)

lemma allocated_Cons [simp]:
  "allocated n ((o1, a) # al) = (if name o1 = n then a else 0) + allocated n al"
  by (simp add: allocated_def)

lemma allocated_append [simp]: "allocated n (al @ bl) = allocated n al + allocated n bl"
  by (simp add: allocated_def)

lemma subseq_distinct: "subseq xs ys \<Longrightarrow> distinct ys \<Longrightarrow> distinct xs"
proof (induction rule: list_emb.induct)
  case (list_emb_Nil ys)
  then show ?case by simp
next
  case (list_emb_Cons xs ys y)
  then show ?case by simp
next
  case (list_emb_Cons2 x y xs ys)
  then show ?case using subseq_set [of xs ys] by auto
qed

lemma distinct_map_sort_key:
  "distinct (map f (sort_key k xs)) = distinct (map f xs)"
proof -
  have "mset (map f (sort_key k xs)) = mset (map f xs)" by simp
  then show ?thesis by (rule mset_eq_imp_distinct_iff)
qed

lemma subseq_names_distinct:
  assumes "subseq (map fst new) (sort_key k options)" "distinct (map name options)"
  shows "distinct (map (\<lambda>e. name (fst e)) new)"
proof -
  have "subseq (map name (map fst new)) (map name (sort_key k options))"
    using assms(1) by (rule subseq_map)
  moreover have "distinct (map name (sort_key k options))"
    using assms(2) by (simp add: distinct_map_sort_key)
  ultimately have "distinct (map name (map fst new))" by (rule subseq_distinct)
  then show ?thesis by (simp add: comp_def)
qed

text \<open>Entries under the equity instrument's name are the equity instrument's.\<close>

lemma named_entries_are_equity:
  assumes "distinct (map name options)" "ce \<in> set options"
    and "\<forall>e\<in>set al. fst e \<in> set options"
  shows "\<forall>e\<in>set al. name (fst e) = name ce \<longrightarrow> fst e = ce"
  using assms by (auto simp: distinct_map dest: inj_onD)

lemma kept_same_slice_big:
  assumes "\<forall>e\<in>set al. name (fst e) = name ce \<longrightarrow> fst e = ce"
    and "\<forall>e\<in>set al. 1 / 1000000 < snd e"
  shows "kept (same_slice ce) al = allocated (name ce) al"
  using assms by (induction al) (auto simp: same_slice_def)

lemma kept_same_slice_gap:
  assumes "\<forall>e\<in>set al. name (fst e) = name ce \<longrightarrow> fst e = ce"
    and "\<forall>e\<in>set al. 0 < snd e"
    and "distinct (map (\<lambda>e. name (fst e)) al)"
  shows "allocated (name ce) al - 1 / 1000000 \<le> kept (same_slice ce) al"
  using assms
proof (induction al)
  case Nil
  then show ?case by simp
next
  case (Cons e al)
  obtain o1 a where e: "e = (o1, a)" by (cases e)
  show ?case
  proof (cases "name o1 = name ce")
    case True
    then have "\<forall>x\<in>set al. name (fst x) \<noteq> name ce"
      using Cons.prems(3) by (force simp: e image_iff)
    then have z: "allocated (name ce) al = 0" "kept (same_slice ce) al = 0"
      by (induction al) (auto simp: same_slice_def)
    have "o1 = ce" using Cons.prems(1) True by (simp add: e)
    moreover have "same_slice ce ce = 1" by (simp add: same_slice_def)
    ultimately show ?thesis using z Cons.prems(2) by (simp add: e)
  next
    case False
    then have "same_slice ce o1 = 0" by (simp add: same_slice_def)
    then show ?thesis using False Cons by (simp add: e)
  qed
qed

lemma kept_same_slice_nonneg_append:
  assumes "0 < x"
  shows "kept (same_slice ce) al \<le> kept (same_slice ce) (al @ [(e, x)])"
  using assms by (simp add: same_slice_def)

lemma kept_same_slice_shrink:
  assumes "\<forall>e\<in>set al. name (fst e) = name ce \<longrightarrow> fst e = ce" and "\<not> is_debt ce"
  shows "kept (same_slice ce) (map (shrink_debt rho) al) = kept (same_slice ce) al"
  using assms
proof (induction al)
  case Nil
  then show ?case by simp
next
  case (Cons e al)
  obtain o1 a where e: "e = (o1, a)" by (cases e)
  show ?case
  proof (cases "name o1 = name ce")
    case True
    then have "o1 = ce" using Cons.prems(1) by (simp add: e)
    then show ?thesis using Cons by (simp add: e shrink_debt_def)
  next
    case False
    then show ?thesis using Cons by (simp add: e shrink_debt_def same_slice_def)
  qed
qed

lemma kept_same_slice_apply_reduction:
  assumes "n \<noteq> name ce"
  shows "kept (same_slice ce) (apply_reduction n a tp al) = kept (same_slice ce) al"
  using assms by (induction al) (auto simp: same_slice_def)

lemma kept_same_slice_reduce_dscr_debts:
  assumes "reduce_dscr_debts ds al d r = Inr (al', r')"
    and "\<forall>e\<in>set ds. name (fst e) \<noteq> name ce"
  shows "kept (same_slice ce) al' = kept (same_slice ce) al"
  using assms
proof (induction ds al d r rule: reduce_dscr_debts.induct)
  case (1 al d r)
  then show ?case by simp
next
  case (2 o1 a ds al d r)
  show ?case
  proof (cases "d \<le> 1 / 1000000")
    case True
    then show ?thesis using "2.prems" by simp
  next
    case False
    have c: "annual_cost o1 \<noteq> 0"
      using "2.prems"(1) False by (auto simp: Let_def split: if_splits)
    let ?tp = "min (a * annual_cost o1) d / annual_cost o1"
    have rec: "reduce_dscr_debts ds (apply_reduction (name o1) a ?tp al)
                 (d - min (a * annual_cost o1) d) (r + ?tp) = Inr (al', r')"
      using "2.prems"(1) False c by (simp add: Let_def)
    have "kept (same_slice ce) al' = kept (same_slice ce) (apply_reduction (name o1) a ?tp al)"
      using "2.IH" [OF False refl refl c refl rec] "2.prems"(2) by simp
    also have "\<dots> = kept (same_slice ce) al"
      using "2.prems"(2) by (simp add: kept_same_slice_apply_reduction)
    finally show ?thesis .
  qed
qed

lemma ensure_equity_minimum_floor:
  assumes "max (min_equity p * tdc p) (min_share ce * tdc p) \<le> max_share ce * tdc p"
  shows "\<exists>fl. fst (ensure_equity_minimum p (Some ce) (al, r)) = al @ fl \<and> length fl \<le> 1 \<and>
              (\<forall>e\<in>set fl. 0 < snd e \<and> fst e = ce) \<and>
              max (min_equity p * tdc p) (min_share ce * tdc p) \<le> allocated (name ce) (al @ fl)"
proof -
  define M where "M = max (min_equity p * tdc p) (min_share ce * tdc p)"
  define cur where "cur = allocated (name ce) al"
  define sp where "sp = max_share ce * tdc p - cur"
  have unfold: "ensure_equity_minimum p (Some ce) (al, r) =
        (if cur < M then
           (if min (M - cur) sp > 0 then (al @ [(ce, min (M - cur) sp)], r - min (M - cur) sp)
            else (al, r))
         else (al, r))"
    unfolding M_def cur_def sp_def
    by (simp only: ensure_equity_minimum_def Let_def prod.case option.case)
  have room: "M \<le> sp + cur" using assms by (simp add: M_def sp_def)
  have "\<exists>fl. fst (ensure_equity_minimum p (Some ce) (al, r)) = al @ fl \<and> length fl \<le> 1 \<and>
              (\<forall>e\<in>set fl. 0 < snd e \<and> fst e = ce) \<and> M \<le> cur + allocated (name ce) fl"
  proof (cases "cur < M")
    case False
    then have "fst (ensure_equity_minimum p (Some ce) (al, r)) = al @ []"
      by (simp add: unfold)
    moreover have "M \<le> cur + allocated (name ce) []" using False by simp
    moreover have "length ([] :: allocation list) \<le> 1" by simp
    moreover have "\<forall>e\<in>set ([] :: allocation list). 0 < snd e \<and> fst e = ce" by simp
    ultimately show ?thesis by blast
  next
    case True
    have m: "min (M - cur) sp = M - cur" using room by (simp add: min_def)
    have pos: "0 < M - cur" using True by simp
    have "fst (ensure_equity_minimum p (Some ce) (al, r)) = al @ [(ce, M - cur)]"
      using True pos by (simp add: unfold m)
    moreover have "M \<le> cur + allocated (name ce) [(ce, M - cur)]" by simp
    moreover have "\<forall>e\<in>set [(ce, M - cur)]. 0 < snd e \<and> fst e = ce" using pos by simp
    moreover have "length [(ce, M - cur)] \<le> 1" by simp
    ultimately show ?thesis by blast
  qed
  then show ?thesis by (simp add: M_def cur_def)
qed

lemma funded_ledger_floor:
  assumes run: "funded_ledger p options = Inr (al, r)"
    and ce: "common_equity_of options = Some ce"
    and room: "max (min_equity p * tdc p) (min_share ce * tdc p) \<le> max_share ce * tdc p"
  shows "\<exists>new1 new2 fl fi.
           al = (new1 @ new2 @ fl) @ fi \<and>
           subseq (map fst new1) (sort_key eff_cost options) \<and>
           subseq (map fst new2) (sort_key eff_cost options) \<and>
           (\<forall>e\<in>set new1. 0 < snd e) \<and> (\<forall>e\<in>set new2. 1 / 1000000 < snd e) \<and>
           length fl \<le> 1 \<and> (\<forall>e\<in>set fl. 0 < snd e \<and> fst e = ce) \<and>
           (\<forall>e\<in>set fi. 0 < snd e \<and> fst e = ce) \<and>
           max (min_equity p * tdc p) (min_share ce * tdc p) \<le> allocated (name ce) (new1 @ new2 @ fl)"
proof -
  let ?so = "sort_key eff_cost options"
  have cef: "find (\<lambda>o1. kind o1 = Equity) options = Some ce"
    using ce by (simp add: common_equity_of_def)
  obtain r1 new1 where 1: "first_pass (tdc p) ?so ([], tdc p) = (new1, r1)"
    "subseq (map fst new1) ?so" "\<forall>e\<in>set new1. 0 < snd e"
    using first_pass_shape [of "tdc p" ?so "[]" "tdc p"]
    by (cases "first_pass (tdc p) ?so ([], tdc p)") auto
  obtain r2 new2 where 2: "second_pass (tdc p) ?so (new1, r1) = (new1 @ new2, r2)"
    "subseq (map fst new2) ?so" "\<forall>e\<in>set new2. 1 / 1000000 < snd e"
    using second_pass_shape [of "tdc p" ?so new1 r1]
    by (cases "second_pass (tdc p) ?so (new1, r1)") auto
  obtain al3 r3 where 3: "ensure_equity_minimum p (Some ce) (new1 @ new2, r2) = (al3, r3)"
    by (cases "ensure_equity_minimum p (Some ce) (new1 @ new2, r2)") auto
  have f: "force_equity_fill (tdc p) (Some ce) (al3, r3) = Inr (al, r)"
    using run 1(1) 2(1) 3 cef by (simp add: funded_ledger_def Let_def)
  from ensure_equity_minimum_floor [OF room, of "new1 @ new2" r2] 3
  obtain fl where fl: "al3 = (new1 @ new2) @ fl" "length fl \<le> 1"
    "\<forall>e\<in>set fl. 0 < snd e \<and> fst e = ce"
    "max (min_equity p * tdc p) (min_share ce * tdc p) \<le> allocated (name ce) ((new1 @ new2) @ fl)"
    by auto
  from force_equity_fill_shape [OF f]
  obtain fi where fi: "al = al3 @ fi" "\<forall>e\<in>set fi. 0 < snd e \<and> fst e = ce"
    by (cases "al = al3") auto
  have "al = (new1 @ new2 @ fl) @ fi" using fl(1) fi(1) by simp
  moreover have "max (min_equity p * tdc p) (min_share ce * tdc p)
                 \<le> allocated (name ce) (new1 @ new2 @ fl)"
    using fl(4) by simp
  ultimately show ?thesis using 1(2,3) 2(2,3) fl(2,3) fi(2) by blast
qed

lemma kept_same_slice_mono_append:
  assumes "\<forall>e\<in>set bl. 0 < snd e"
  shows "kept (same_slice ce) al \<le> kept (same_slice ce) (al @ bl)"
proof -
  have "0 \<le> kept (same_slice ce) bl"
    using assms by (induction bl) (auto simp: same_slice_def)
  then show ?thesis by simp
qed

lemma funded_ledger_equity_kept:
  assumes run: "funded_ledger p options = Inr (al, r)"
    and ce: "common_equity_of options = Some ce"
    and room: "max (min_equity p * tdc p) (min_share ce * tdc p) \<le> max_share ce * tdc p"
    and dist: "distinct (map name options)"
  shows "max (min_equity p * tdc p) (min_share ce * tdc p) - 2 / 1000000
         \<le> kept (same_slice ce) al"
proof -
  let ?M = "max (min_equity p * tdc p) (min_share ce * tdc p)"
  let ?so = "sort_key eff_cost options"
  from funded_ledger_floor [OF run ce room] obtain new1 new2 fl fi where
    p: "al = (new1 @ new2 @ fl) @ fi"
       "subseq (map fst new1) ?so" "subseq (map fst new2) ?so"
       "\<forall>e\<in>set new1. 0 < snd e" "\<forall>e\<in>set new2. 1 / 1000000 < snd e"
       "length fl \<le> 1" "\<forall>e\<in>set fl. 0 < snd e \<and> fst e = ce"
       "\<forall>e\<in>set fi. 0 < snd e \<and> fst e = ce"
       "?M \<le> allocated (name ce) (new1 @ new2 @ fl)"
    by blast
  have cein: "ce \<in> set options"
    using ce find_Some_kind [of options ce] by (simp add: common_equity_of_def)
  have in1: "\<forall>e\<in>set new1. fst e \<in> set options" using subseq_set [OF p(2)] by auto
  have in2: "\<forall>e\<in>set new2. fst e \<in> set options" using subseq_set [OF p(3)] by auto
  note g1 = named_entries_are_equity [OF dist cein in1]
  note g2 = named_entries_are_equity [OF dist cein in2]
  have gf: "\<forall>e\<in>set fl. name (fst e) = name ce \<longrightarrow> fst e = ce" using p(7) by simp
  have d1: "distinct (map (\<lambda>e. name (fst e)) new1)"
    by (rule subseq_names_distinct [OF p(2) dist])
  have df: "distinct (map (\<lambda>e. name (fst e)) fl)"
    using p(6) by (cases fl) auto
  have k1: "allocated (name ce) new1 - 1 / 1000000 \<le> kept (same_slice ce) new1"
    by (rule kept_same_slice_gap [OF g1 p(4) d1])
  have k2: "kept (same_slice ce) new2 = allocated (name ce) new2"
    by (rule kept_same_slice_big [OF g2 p(5)])
  have pf: "\<forall>e\<in>set fl. 0 < snd e" using p(7) by simp
  have k3: "allocated (name ce) fl - 1 / 1000000 \<le> kept (same_slice ce) fl"
    by (rule kept_same_slice_gap [OF gf pf df])
  have "?M - 2 / 1000000 \<le> allocated (name ce) (new1 @ new2 @ fl) - 2 / 1000000"
    using p(9) by simp
  also have "\<dots> \<le> kept (same_slice ce) (new1 @ new2 @ fl)"
    using k1 k2 k3 by simp
  also have "\<dots> \<le> kept (same_slice ce) al"
    unfolding p(1) using p(8) by (intro kept_same_slice_mono_append) simp
  finally show ?thesis .
qed

lemma kept_same_slice_append_one:
  "kept (same_slice ce) al \<le> kept (same_slice ce) (al @ [(e, x)])"
  by (simp add: same_slice_def)

lemma shrink_debt_fst [simp]: "fst (shrink_debt rho e) = fst e"
  by (simp add: shrink_debt_def)

lemma corrections_keep_equity:
  assumes f: "funded_ledger p options = Inr (al4, r4)"
    and l: "enforce_max_ltc p (common_equity_of options) td (al4, r4) = Inr (al5, r5)"
    and d: "enforce_dscr_covenant p (common_equity_of options) ta (al5, r5) = Inr (al6, r6)"
    and ce: "common_equity_of options = Some ce"
    and dist: "distinct (map name options)"
  shows "kept (same_slice ce) al4 \<le> kept (same_slice ce) al6"
proof -
  have cein: "ce \<in> set options"
    using ce find_Some_kind [of options ce] by (simp add: common_equity_of_def)
  have nd: "\<not> is_debt ce" by (rule common_equity_not_debt [OF ce])
  have in4: "\<forall>e\<in>set al4. fst e \<in> set options"
    using funded_ledger_shape [OF f] by blast
  note g4 = named_entries_are_equity [OF dist cein in4]
  have 45: "kept (same_slice ce) al4 \<le> kept (same_slice ce) al5 \<and>
            (\<forall>e\<in>set al5. fst e \<in> set options)"
  proof -
    from enforce_max_ltc_InrD [OF l] consider
      (same) "al5 = al4"
    | (cut) e rho add where "common_equity_of options = Some e"
        "al5 = map (shrink_debt rho) al4 @ [(e, add)]"
      by blast
    then show ?thesis
    proof cases
      case same
      then show ?thesis using in4 by simp
    next
      case cut
      have "kept (same_slice ce) al4 = kept (same_slice ce) (map (shrink_debt rho) al4)"
        by (rule kept_same_slice_shrink [OF g4 nd, symmetric])
      also have "\<dots> \<le> kept (same_slice ce) al5"
        unfolding cut(2) by (rule kept_same_slice_append_one)
      finally have "kept (same_slice ce) al4 \<le> kept (same_slice ce) al5" .
      moreover have "\<forall>e\<in>set al5. fst e \<in> set options"
        using in4 cein cut(1) ce by (auto simp: cut(2))
      ultimately show ?thesis by blast
    qed
  qed
  then have in5: "\<forall>e\<in>set al5. fst e \<in> set options" by blast
  have 56: "kept (same_slice ce) al5 \<le> kept (same_slice ce) al6"
  proof -
    from enforce_dscr_covenant_InrD [OF d] consider
      (same) "al6 = al5"
    | (cut) al'' r'' e add d0 where
        "reduce_dscr_debts (dscr_debts al5) al5 d0 r5 = Inr (al'', r'')"
        "al6 = al'' @ [(e, add)]"
      by blast
    then show ?thesis
    proof cases
      case same
      then show ?thesis by simp
    next
      case cut
      have "\<forall>e\<in>set (dscr_debts al5). name (fst e) \<noteq> name ce"
      proof
        fix e assume e: "e \<in> set (dscr_debts al5)"
        then have "is_debt (fst e)" "fst e \<in> set options"
          using in5 by (auto simp: set_dscr_debts)
        then show "name (fst e) \<noteq> name ce"
          using nd dist cein by (auto simp: distinct_map dest: inj_onD)
      qed
      from kept_same_slice_reduce_dscr_debts [OF cut(1) this]
      have "kept (same_slice ce) al'' = kept (same_slice ce) al5" .
      then show ?thesis
        unfolding cut(2) using kept_same_slice_append_one [of ce al'' e add] by simp
    qed
  qed
  from 45 56 show ?thesis by linarith
qed




section \<open>The DSCR correction\<close>

subsection \<open>Amounts under one name\<close>

lemma kept_amounts_simps [simp]:
  "kept_amounts [] = 0"
  "kept_amounts (x # xs) = (if x > 1 / 1000000 then x else 0) + kept_amounts xs"
  by (simp_all add: kept_amounts_def)

lemma visiting_full_step:
  assumes "visiting (a # todo) cur"
  shows "visiting todo (reduce_first a a cur)"
  using assms unfolding visiting_def
  by (cases todo) (auto split: if_splits)

lemma visiting_kept_step:
  assumes "visiting (a # todo) cur" "0 \<le> tp" "tp \<le> a"
  shows "kept_amounts (reduce_first a tp cur)
         \<le> kept_amounts cur - (if a > 1 / 1000000 then a else 0) + (a - tp)"
  using assms unfolding visiting_def
  by (auto split: if_splits)

lemma amounts_of_simps [simp]:
  "amounts_of n [] = []"
  "amounts_of n ((o1, a) # al) = (if name o1 = n then a # amounts_of n al else amounts_of n al)"
  by (simp_all add: amounts_of_def)

lemma amounts_of_apply_reduction_same:
  "amounts_of n (apply_reduction n a tp al) = reduce_first a tp (amounts_of n al)"
  by (induction al) auto

lemma amounts_of_apply_reduction_other:
  "n' \<noteq> n \<Longrightarrow> amounts_of n' (apply_reduction n a tp al) = amounts_of n' al"
  by (induction al) auto

lemma others_apply_reduction:
  "filter (\<lambda>e. name (fst e) \<noteq> n) (apply_reduction n a tp al)
   = filter (\<lambda>e. name (fst e) \<noteq> n) al"
  by (induction al) auto

text \<open>When every entry under the name \<open>n\<close> belongs to the option \<open>o1\<close>, a weighted sum
  of kept entries splits into the part under \<open>n\<close> and the rest.\<close>

lemma kept_split_by_name:
  assumes "\<forall>e\<in>set al. name (fst e) = n \<longrightarrow> fst e = o1"
  shows "kept w al = w o1 * kept_amounts (amounts_of n al)
                     + kept w (filter (\<lambda>e. name (fst e) \<noteq> n) al)"
  using assms
proof (induction al)
  case Nil
  then show ?case by simp
next
  case (Cons e al)
  obtain o2 a where e: "e = (o2, a)" by (cases e)
  show ?case
  proof (cases "name o2 = n")
    case True
    then have "o2 = o1" using Cons.prems by (simp add: e)
    then show ?thesis using Cons True by (simp add: e algebra_simps)
  next
    case False
    then show ?thesis using Cons by (simp add: e)
  qed
qed

lemma apply_reduction_names:
  assumes "\<forall>e\<in>set al. name (fst e) = n \<longrightarrow> fst e = o1"
  shows "\<forall>e\<in>set (apply_reduction n a tp al). name (fst e) = n \<longrightarrow> fst e = o1"
proof -
  have "fst ` set (apply_reduction n a tp al) = fst ` set al"
    using apply_reduction_fst [of n a tp al] by (metis set_map)
  then show ?thesis using assms by (metis (no_types, lifting) imageE imageI)
qed

lemma kept_apply_reduction:
  assumes "\<forall>e\<in>set al. name (fst e) = n \<longrightarrow> fst e = o1"
  shows "kept w (apply_reduction n a tp al)
         = kept w al + w o1 * (kept_amounts (reduce_first a tp (amounts_of n al))
                               - kept_amounts (amounts_of n al))"
  using kept_split_by_name [OF assms, of w]
        kept_split_by_name [OF apply_reduction_names [OF assms], of w a tp]
  by (simp add: amounts_of_apply_reduction_same others_apply_reduction algebra_simps)

subsection \<open>The outer loop\<close>

lemma total_annual_debt_simps [simp]:
  "total_annual_debt [] = 0"
  "total_annual_debt ((o1, a) # al)
   = (if is_debt o1 \<and> enforce_dscr o1 then a * annual_cost o1 else 0) + total_annual_debt al"
  by (simp_all add: total_annual_debt_def)

lemma total_annual_debt_append [simp]:
  "total_annual_debt (al @ bl) = total_annual_debt al + total_annual_debt bl"
  by (simp add: total_annual_debt_def)

lemma kept_dscr_weight_le_total:
  assumes "\<forall>e\<in>set al. is_debt (fst e) \<and> enforce_dscr (fst e)
             \<longrightarrow> 0 \<le> snd e \<and> 0 \<le> annual_cost (fst e)"
  shows "kept dscr_weight al \<le> total_annual_debt al"
  using assms
proof (induction al)
  case Nil
  then show ?case by simp
next
  case (Cons e al)
  obtain o1 a where e: "e = (o1, a)" by (cases e)
  have ih: "kept dscr_weight al \<le> total_annual_debt al" using Cons by simp
  show ?case
  proof (cases "is_debt o1 \<and> enforce_dscr o1")
    case True
    then have nn: "0 \<le> a * annual_cost o1" using Cons.prems by (simp add: e)
    have w: "dscr_weight o1 = annual_cost o1" using True by (simp add: dscr_weight_def)
    show ?thesis using ih nn True by (simp add: e w mult.commute)
  next
    case False
    then have w: "dscr_weight o1 = 0" by (auto simp: dscr_weight_def)
    show ?thesis using ih False by (auto simp: e w)
  qed
qed

lemma reduce_dscr_debts_stop:
  "d \<le> 1 / 1000000 \<Longrightarrow> reduce_dscr_debts ds al d r = Inr (al, r)"
  by (cases ds) auto

lemma take_principal_bounds:
  assumes "0 \<le> a" "0 < d" "0 < (c :: real)"
  shows "0 \<le> min (a * c) d / c" and "min (a * c) d / c \<le> a"
    and "min (a * c) d / c * c = min (a * c) d"
proof -
  have "0 \<le> min (a * c) d" using assms by simp
  then show "0 \<le> min (a * c) d / c" using assms(3) by simp
  have "min (a * c) d \<le> a * c" by simp
  then show "min (a * c) d / c \<le> a" using assms(3) by (simp add: divide_le_eq)
  show "min (a * c) d / c * c = min (a * c) d" using assms(3) by simp
qed

lemma reduce_dscr_debts_service:
  assumes "reduce_dscr_debts ds al d r = Inr (al', r')"
    and "\<forall>e\<in>set ds. is_debt (fst e) \<and> enforce_dscr (fst e) \<and> 0 < annual_cost (fst e) \<and> 0 \<le> snd e"
    and "\<forall>e\<in>set ds. \<forall>e'\<in>set al. name (fst e') = name (fst e) \<longrightarrow> fst e' = fst e"
    and "\<forall>n. visiting (amounts_of n ds) (amounts_of n al)"
    and "kept dscr_weight al \<le> kept dscr_weight ds"
  shows "kept dscr_weight al' \<le> max 0 (total_annual_debt ds - d + 1 / 1000000)"
  using assms
proof (induction ds al d r rule: reduce_dscr_debts.induct)
  case (1 al d r)
  then show ?case by simp
next
  case (2 o1 a ds al d r)
  let ?c = "annual_cost o1"
  let ?n = "name o1"
  let ?k = "if a > 1 / 1000000 then a else 0"
  have o1: "is_debt o1" "enforce_dscr o1" "0 < ?c" "0 \<le> a"
    using "2.prems"(2) by simp_all
  have w: "dscr_weight o1 = ?c" using o1 by (simp add: dscr_weight_def)
  have ds_ok: "\<forall>e\<in>set ds. is_debt (fst e) \<and> enforce_dscr (fst e) \<and> 0 < annual_cost (fst e) \<and> 0 \<le> snd e"
    using "2.prems"(2) by simp
  have tot: "total_annual_debt ((o1, a) # ds) = a * ?c + total_annual_debt ds"
    using o1 by simp
  have kds: "kept dscr_weight ((o1, a) # ds) = ?c * ?k + kept dscr_weight ds"
    using w by simp
  have ktot: "kept dscr_weight ds \<le> total_annual_debt ds"
    using ds_ok by (intro kept_dscr_weight_le_total) (auto simp: less_imp_le)
  show ?case
  proof (cases "d \<le> 1 / 1000000")
    case True
    then have "al' = al" using "2.prems"(1) by simp
    moreover have "kept dscr_weight ((o1, a) # ds) \<le> total_annual_debt ((o1, a) # ds)"
      using "2.prems"(2) by (intro kept_dscr_weight_le_total) (auto simp: less_imp_le)
    ultimately show ?thesis using "2.prems"(5) True by simp
  next
    case False
    then have dpos: "0 < d" by simp
    have c: "?c \<noteq> 0" using o1 by simp
    let ?take = "min (a * ?c) d"
    let ?tp = "?take / ?c"
    let ?al = "apply_reduction ?n a ?tp al"
    note tp = take_principal_bounds [OF o1(4) dpos o1(3)]
    have rec: "reduce_dscr_debts ds ?al (d - ?take) (r + ?tp) = Inr (al', r')"
      using "2.prems"(1) False c by (simp add: Let_def)
    have same: "\<forall>e\<in>set al. name (fst e) = ?n \<longrightarrow> fst e = o1"
      using "2.prems"(3) by simp
    have vis: "visiting (a # amounts_of ?n ds) (amounts_of ?n al)"
      using "2.prems"(4) [rule_format, of ?n] by simp
    have "kept_amounts (reduce_first a ?tp (amounts_of ?n al))
          \<le> kept_amounts (amounts_of ?n al) - ?k + (a - ?tp)"
      by (rule visiting_kept_step [OF vis tp(1) tp(2)])
    then have "?c * (kept_amounts (reduce_first a ?tp (amounts_of ?n al))
                      - kept_amounts (amounts_of ?n al))
               \<le> ?c * (- ?k + (a - ?tp))"
      using o1(3) by (intro mult_left_mono) auto
    also have "\<dots> = - (?c * ?k) + (a * ?c - ?take)"
      using tp(3) by (simp add: algebra_simps)
    finally have "kept dscr_weight ?al \<le> kept dscr_weight al - ?c * ?k + (a * ?c - ?take)"
      using kept_apply_reduction [OF same, of dscr_weight a ?tp] w by simp
    then have step: "kept dscr_weight ?al \<le> kept dscr_weight ds + (a * ?c - ?take)"
      using "2.prems"(5) kds by linarith
    show ?thesis
    proof (cases "a * ?c \<le> d")
      case True
      then have take: "?take = a * ?c" by simp
      then have tpa: "?tp = a" using c by simp
      have acc': "kept dscr_weight ?al \<le> kept dscr_weight ds"
        using step take by simp
      have same': "\<forall>e\<in>set ds. \<forall>e'\<in>set ?al. name (fst e') = name (fst e) \<longrightarrow> fst e' = fst e"
      proof (intro ballI impI)
        fix e e' assume e: "e \<in> set ds" "e' \<in> set ?al" "name (fst e') = name (fst e)"
        have "fst e' \<in> fst ` set ?al" using e(2) by simp
        also have "fst ` set ?al = fst ` set al"
          using apply_reduction_fst [of ?n a ?tp al] by (metis set_map)
        finally obtain e'' where "e'' \<in> set al" "fst e'' = fst e'" by auto
        then show "fst e' = fst e" using "2.prems"(3) e(1,3) by force
      qed
      have vis': "\<forall>n. visiting (amounts_of n ds) (amounts_of n ?al)"
      proof
        fix n
        show "visiting (amounts_of n ds) (amounts_of n ?al)"
        proof (cases "n = ?n")
          case True
          then show ?thesis
            using visiting_full_step [OF vis]
            by (simp add: amounts_of_apply_reduction_same tpa)
        next
          case False
          then show ?thesis
            using "2.prems"(4) [rule_format, of n]
            by (simp add: amounts_of_apply_reduction_other)
        qed
      qed
      have "kept dscr_weight al' \<le> max 0 (total_annual_debt ds - (d - ?take) + 1 / 1000000)"
        by (rule "2.IH" [OF False refl refl c refl rec ds_ok same' vis' acc'])
      then show ?thesis unfolding tot take by (simp add: algebra_simps)
    next
      case False
      then have take: "?take = d" by simp
      have "reduce_dscr_debts ds ?al (d - ?take) (r + ?tp) = Inr (?al, r + ?tp)"
        by (rule reduce_dscr_debts_stop) (simp add: take)
      then have "al' = ?al" using rec by simp
      then have "kept dscr_weight al' \<le> total_annual_debt ds + (a * ?c - d)"
        using step ktot take by simp
      then show ?thesis unfolding tot by (simp add: algebra_simps)
    qed
  qed
qed

subsection \<open>The ledger the DSCR correction starts from\<close>

lemma sum_list_map_sort_key:
  "sum_list (map g (sort_key f xs)) = sum_list (map (g :: 'a \<Rightarrow> real) xs)"
proof -
  have "mset (map g (sort_key f xs)) = mset (map g xs)" by simp
  then show ?thesis by (metis sum_mset_sum_list)
qed

lemma kept_sort_key: "kept w (sort_key f xs) = kept w xs"
  unfolding kept_def by (rule sum_list_map_sort_key)

lemma kept_filter:
  assumes "\<forall>e\<in>set al. \<not> P e \<longrightarrow> w (fst e) = 0"
  shows "kept w (filter P al) = kept w al"
  using assms by (induction al) auto

lemma kept_dscr_debts: "kept dscr_weight (dscr_debts al) = kept dscr_weight al"
proof -
  have "kept dscr_weight (filter (\<lambda>(o1, a). is_debt o1 \<and> enforce_dscr o1) al) = kept dscr_weight al"
    by (rule kept_filter) (auto simp: dscr_weight_def)
  then show ?thesis by (simp add: dscr_debts_def kept_sort_key)
qed

lemma total_annual_debt_dscr_debts: "total_annual_debt (dscr_debts al) = total_annual_debt al"
  by (simp add: total_annual_debt_def dscr_debts_def sum_list_map_sort_key filter_sort)

lemma sort_key_constant:
  assumes "\<forall>x\<in>set xs. f x = (c :: real)"
  shows "sort_key f xs = xs"
proof -
  have "map f xs = replicate (length xs) c"
    using assms by (induction xs) auto
  then have "sorted (map f xs)" by simp
  then show ?thesis by (rule sort_key_id_if_sorted)
qed

lemma amounts_of_append [simp]:
  "amounts_of n (al @ bl) = amounts_of n al @ amounts_of n bl"
  by (simp add: amounts_of_def)

lemma length_amounts_of_shrink:
  "length (amounts_of n (map (shrink_debt rho) al)) = length (amounts_of n al)"
  by (induction al) (auto simp: amounts_of_def)

lemma distinct_names_at_most_one:
  assumes "distinct (map (\<lambda>e. name (fst e)) al)"
  shows "length (amounts_of n al) \<le> 1"
  using assms
proof (induction al)
  case Nil
  then show ?case by simp
next
  case (Cons e al)
  obtain o1 a where e: "e = (o1, a)" by (cases e)
  show ?case
  proof (cases "name o1 = n")
    case True
    then have "\<forall>x\<in>set al. name (fst x) \<noteq> n"
      using Cons.prems by (force simp: e image_iff)
    then have "amounts_of n al = []" by (induction al) auto
    then show ?thesis using True by (simp add: e)
  next
    case False
    then show ?thesis using Cons by (simp add: e)
  qed
qed

lemma amounts_of_visited_start:
  assumes opts: "\<forall>e\<in>set al. fst e \<in> set options"
    and dist: "distinct (map name options)"
    and two: "\<forall>e\<in>set al. is_debt (fst e) \<longrightarrow> length (amounts_of (name (fst e)) al) \<le> 2"
  shows "visiting (amounts_of n (dscr_debts al)) (amounts_of n al)"
proof -
  let ?E = "\<lambda>(o1, a). is_debt o1 \<and> enforce_dscr (o1 :: capital_option)"
  let ?N = "\<lambda>e :: allocation. name (fst e) = n"
  let ?f = "\<lambda>(o1 :: capital_option, a :: real). - annual_cost o1"
  have eq: "amounts_of n (dscr_debts al) = map snd (sort_key ?f (filter ?N (filter ?E al)))"
    by (simp add: amounts_of_def dscr_debts_def filter_sort)
  show ?thesis
  proof (cases "filter ?N (filter ?E al) = []")
    case True
    then show ?thesis by (simp add: eq visiting_def)
  next
    case False
    then obtain e0 where e0: "e0 \<in> set al" "?N e0" "?E e0"
      by (metis (mono_tags, lifting) filter_False mem_Collect_eq set_filter)
    have same: "\<forall>e\<in>set al. ?N e \<longrightarrow> fst e = fst e0"
      using opts dist e0(1,2) by (auto simp: distinct_map dest!: inj_onD)
    then have allE: "\<forall>e\<in>set al. ?N e \<longrightarrow> ?E e"
      using e0(3) by (auto simp: case_prod_beta)
    have 1: "filter ?N (filter ?E al) = filter ?N al"
      using allE by (induction al) auto
    have 2: "sort_key ?f (filter ?N al) = filter ?N al"
      using same by (intro sort_key_constant [where c = "- annual_cost (fst e0)"])
                    (auto simp: case_prod_beta)
    have "amounts_of n (dscr_debts al) = map snd (filter ?N al)"
      unfolding eq 1 2 ..
    then have "amounts_of n (dscr_debts al) = amounts_of n al"
      by (simp add: amounts_of_def)
    moreover have "length (amounts_of n al) \<le> 2"
      using two e0 by (auto simp: case_prod_beta)
    ultimately show ?thesis by (simp add: visiting_def)
  qed
qed

lemma total_annual_debt_shrink:
  "total_annual_debt (map (shrink_debt rho) al) = (1 - rho) * total_annual_debt al"
  by (induction al) (auto simp: shrink_debt_def algebra_simps)

lemma total_annual_debt_nonneg:
  assumes "\<forall>e\<in>set al. 0 \<le> snd e \<and> 0 \<le> annual_cost (fst e)"
  shows "0 \<le> total_annual_debt al"
  using assms by (induction al) auto

lemma valid_options_cost:
  "\<forall>o1\<in>set options. valid_option o1 \<Longrightarrow> o1 \<in> set options \<Longrightarrow> 0 < annual_cost o1"
  by (simp add: valid_option_def)

lemma corrected_ledger_facts:
  assumes f: "funded_ledger p options = Inr (al4, r4)"
    and l: "enforce_max_ltc p (common_equity_of options) (total_debt_amount al4) (al4, r4)
            = Inr (al5, r5)"
    and dist: "distinct (map name options)"
    and vp: "valid_project p" and vo: "\<forall>o1\<in>set options. valid_option o1"
  shows "\<forall>e\<in>set al5. fst e \<in> set options"
    and "\<forall>e\<in>set al5. is_debt (fst e) \<longrightarrow> 0 \<le> snd e"
    and "\<forall>e\<in>set al5. is_debt (fst e) \<longrightarrow> length (amounts_of (name (fst e)) al5) \<le> 2"
    and "total_annual_debt al5 \<le> total_annual_debt al4"
proof -
  let ?so = "sort_key eff_cost options"
  from funded_ledger_parts [OF f] obtain new1 new2 eq where
    p: "al4 = new1 @ new2 @ eq"
       "subseq (map fst new1) ?so" "subseq (map fst new2) ?so"
       "\<forall>e\<in>set eq. 0 < snd e \<and> common_equity_of options = Some (fst e)"
    by blast
  have sh: "\<forall>e\<in>set al4. 0 < snd e \<and> fst e \<in> set options"
    by (rule funded_ledger_shape [OF f])
  then have pos: "\<forall>e\<in>set al4. 0 < snd e" and in4: "\<forall>e\<in>set al4. fst e \<in> set options"
    by blast+
  obtain lt where lt: "max_ltc p = Some lt" "0 < lt" "0 < tdc p"
    using vp by (auto simp: valid_project_def split: option.splits)
  have cap: "0 \<le> lt * tdc p" using lt by simp
  have ce: "\<forall>e. common_equity_of options = Some e \<longrightarrow> \<not> is_debt e"
    using common_equity_not_debt by blast
  show nn: "\<forall>e\<in>set al5. is_debt (fst e) \<longrightarrow> 0 \<le> snd e"
    by (rule enforce_max_ltc_debt(2) [OF l ce lt(1) cap pos])
  have two4: "\<forall>e\<in>set al4. is_debt (fst e) \<longrightarrow> length (amounts_of (name (fst e)) al4) \<le> 2"
  proof (intro ballI impI)
    fix e assume e: "e \<in> set al4" "is_debt (fst e)"
    have "length (amounts_of (name (fst e)) new1) \<le> 1"
      by (rule distinct_names_at_most_one [OF subseq_names_distinct [OF p(2) dist]])
    moreover have "length (amounts_of (name (fst e)) new2) \<le> 1"
      by (rule distinct_names_at_most_one [OF subseq_names_distinct [OF p(3) dist]])
    moreover have "amounts_of (name (fst e)) eq = []"
    proof -
      have "\<forall>x\<in>set eq. name (fst x) \<noteq> name (fst e)"
      proof
        fix x assume x: "x \<in> set eq"
        then have c: "common_equity_of options = Some (fst x)" using p(4) by blast
        then have "\<not> is_debt (fst x)" "fst x \<in> set options"
          using ce find_Some_kind [of options "fst x"] by (auto simp: common_equity_of_def)
        then show "name (fst x) \<noteq> name (fst e)"
          using e in4 dist by (auto simp: distinct_map dest: inj_onD)
      qed
      then show ?thesis by (induction eq) auto
    qed
    ultimately show "length (amounts_of (name (fst e)) al4) \<le> 2"
      by (simp add: p(1))
  qed
  from enforce_max_ltc_InrD [OF l] consider
    (same) "al5 = al4"
  | (cut) e rho add where "lt * tdc p < total_debt_amount al4" "common_equity_of options = Some e"
      "rho = (total_debt_amount al4 - lt * tdc p) / max (total_debt_amount al4) (1 / 1000000000)"
      "al5 = map (shrink_debt rho) al4 @ [(e, add)]"
    using lt(1) by auto
  then have "(\<forall>e\<in>set al5. fst e \<in> set options) \<and>
             (\<forall>e\<in>set al5. is_debt (fst e) \<longrightarrow> length (amounts_of (name (fst e)) al5) \<le> 2) \<and>
             total_annual_debt al5 \<le> total_annual_debt al4"
  proof cases
    case same
    then show ?thesis using in4 two4 by simp
  next
    case cut
    have ein: "e \<in> set options" and nd: "\<not> is_debt e"
      using cut(2) ce find_Some_kind [of options e] by (auto simp: common_equity_of_def)
    have in5: "\<forall>x\<in>set al5. fst x \<in> set options"
      using in4 ein by (auto simp: cut(4))
    have two5: "\<forall>x\<in>set al5. is_debt (fst x) \<longrightarrow> length (amounts_of (name (fst x)) al5) \<le> 2"
    proof (intro ballI impI)
      fix x assume x: "x \<in> set al5" "is_debt (fst x)"
      then obtain y where y: "y \<in> set al4" "fst y = fst x"
        using nd by (auto simp: cut(4))
      have "name e \<noteq> name (fst x)"
        using x(2) nd ein in5 x(1) dist by (auto simp: distinct_map dest: inj_onD)
      then have "amounts_of (name (fst x)) [(e, add)] = []" by simp
      moreover have "length (amounts_of (name (fst x)) al4) \<le> 2"
        using two4 y x(2) by metis
      ultimately show "length (amounts_of (name (fst x)) al5) \<le> 2"
        by (simp add: cut(4) length_amounts_of_shrink)
    qed
    note b = ltc_ratio_bounds [OF cap cut(1), folded cut(3)]
    have "0 \<le> total_annual_debt al4"
    proof (rule total_annual_debt_nonneg, intro ballI)
      fix x assume "x \<in> set al4"
      then show "0 \<le> snd x \<and> 0 \<le> annual_cost (fst x)"
        using sh valid_options_cost [OF vo] by (auto simp: less_imp_le)
    qed
    moreover have "1 - rho \<le> 1" "0 \<le> 1 - rho" using b(1,2) by simp_all
    ultimately have "(1 - rho) * total_annual_debt al4 \<le> 1 * total_annual_debt al4"
      by (intro mult_right_mono) auto
    then have "total_annual_debt al5 \<le> total_annual_debt al4"
      using nd by (simp add: cut(4) total_annual_debt_shrink)
    then show ?thesis using in5 two5 by blast
  qed
  then show "\<forall>e\<in>set al5. fst e \<in> set options"
    and "\<forall>e\<in>set al5. is_debt (fst e) \<longrightarrow> length (amounts_of (name (fst e)) al5) \<le> 2"
    and "total_annual_debt al5 \<le> total_annual_debt al4"
    by blast+
qed

section \<open>The debt service left by the DSCR correction\<close>

lemma find_by_name:
  "distinct (map name xs) \<Longrightarrow> x \<in> set xs \<Longrightarrow> find (\<lambda>o1. name o1 = name x) xs = Some x"
  by (induction xs) (auto simp: image_iff)

lemma dscr_enforced_member:
  "distinct (map name options) \<Longrightarrow> o1 \<in> set options
   \<Longrightarrow> dscr_enforced options (name o1) = enforce_dscr o1"
  by (simp add: dscr_enforced_def find_by_name)

lemma distinct_name_eq:
  "distinct (map name xs) \<Longrightarrow> x \<in> set xs \<Longrightarrow> y \<in> set xs \<Longrightarrow> name x = name y \<Longrightarrow> x = y"
  by (auto simp: distinct_map dest: inj_onD)

lemma kept_cong:
  assumes "\<forall>e\<in>set al. w (fst e) = w' (fst e)"
  shows "kept w al = kept w' al"
  using assms by (induction al) auto

lemma kept_zero_weight: "w e = 0 \<Longrightarrow> kept w [(e, a)] = 0"
  by simp

lemma dscr_not_less:
  assumes d: "compute_dscr n ta = Inr d" and nl: "\<not> rate_less d m"
    and m: "0 < m" and n: "0 \<le> n" and fl: "n = 0 \<or> m \<le> float_overflow"
  shows "ta = 0 \<or> ta \<le> n / m"
proof (cases "ta = 0")
  case True
  then show ?thesis by simp
next
  case False
  have "m \<le> n / ta"
  proof (cases "float_overflow \<le> n / ta")
    case True
    then have "n \<noteq> 0" using float_overflow_pos by auto
    then show ?thesis using fl True by simp
  next
    case over: False
    show ?thesis
    proof (cases "n / ta \<le> - float_overflow")
      case True
      then have "d = NegInf"
        using d False over by (simp add: compute_dscr_def float_div_def)
      then show ?thesis using nl by (simp add: rate_less_def)
    next
      case under: False
      then have "d = Finite (n / ta)"
        using d False over by (simp add: compute_dscr_def float_div_def)
      then show ?thesis using nl by (simp add: rate_less_def)
    qed
  qed
  moreover have "0 < ta"
  proof (rule ccontr)
    assume "\<not> 0 < ta"
    then have "ta < 0" using False by simp
    then have "n / ta \<le> 0" using n by (simp add: divide_nonneg_neg)
    then show False using \<open>m \<le> n / ta\<close> m by simp
  qed
  ultimately have "ta \<le> n / m"
    using m by (simp add: field_simps)
  then show ?thesis ..
qed

lemma reduce_dscr_debts_from_ledger:
  assumes red: "reduce_dscr_debts (dscr_debts al) al d r = Inr (al', r')"
    and dist: "distinct (map name options)"
    and mem: "\<forall>e\<in>set al. fst e \<in> set options"
    and nn: "\<forall>e\<in>set al. is_debt (fst e) \<longrightarrow> 0 \<le> snd e"
    and two: "\<forall>e\<in>set al. is_debt (fst e) \<longrightarrow> length (amounts_of (name (fst e)) al) \<le> 2"
    and cost: "\<forall>e\<in>set al. 0 < annual_cost (fst e)"
  shows "kept dscr_weight al' \<le> max 0 (total_annual_debt al - d + 1 / 1000000)"
proof -
  have 1: "\<forall>e\<in>set (dscr_debts al). is_debt (fst e) \<and> enforce_dscr (fst e) \<and>
              0 < annual_cost (fst e) \<and> 0 \<le> snd e"
    unfolding set_dscr_debts using nn cost by blast
  have 2: "\<forall>e\<in>set (dscr_debts al). \<forall>e'\<in>set al.
              name (fst e') = name (fst e) \<longrightarrow> fst e' = fst e"
    unfolding set_dscr_debts using mem distinct_name_eq [OF dist] by blast
  have 3: "\<forall>n. visiting (amounts_of n (dscr_debts al)) (amounts_of n al)"
    using amounts_of_visited_start [OF mem dist two] by blast
  have 4: "kept dscr_weight al \<le> kept dscr_weight (dscr_debts al)"
    by (simp only: kept_dscr_debts)
  from reduce_dscr_debts_service [OF red 1 2 3 4] show ?thesis
    by (simp only: total_annual_debt_dscr_debts)
qed

lemma covenant_step_bound:
  assumes c: "enforce_dscr_covenant p (common_equity_of options) ta (al, r) = Inr (al', r')"
    and dist: "distinct (map name options)"
    and mem: "\<forall>e\<in>set al. fst e \<in> set options"
    and nn: "\<forall>e\<in>set al. is_debt (fst e) \<longrightarrow> 0 \<le> snd e"
    and two: "\<forall>e\<in>set al. is_debt (fst e) \<longrightarrow> length (amounts_of (name (fst e)) al) \<le> 2"
    and cost: "\<forall>e\<in>set al. 0 < annual_cost (fst e)"
    and ta: "total_annual_debt al \<le> ta"
    and m: "0 < min_dscr p" and n: "0 \<le> noi p"
    and fl: "noi p = 0 \<or> min_dscr p \<le> float_overflow"
  shows "kept dscr_weight al' \<le> noi p / min_dscr p + 1 / 1000000"
    and "\<forall>e\<in>set al'. fst e \<in> set options"
proof -
  have req: "0 \<le> noi p / min_dscr p" using m n by simp
  have le: "kept dscr_weight al \<le> total_annual_debt al"
  proof (rule kept_dscr_weight_le_total, intro ballI impI)
    fix e assume "e \<in> set al" "is_debt (fst e) \<and> enforce_dscr (fst e)"
    then have "0 \<le> snd e" "0 < annual_cost (fst e)" using nn cost by blast+
    then show "0 \<le> snd e \<and> 0 \<le> annual_cost (fst e)" by simp
  qed
  from enforce_dscr_covenant_InrD [OF c] consider
    (same) d where "al' = al" "compute_dscr (noi p) ta = Inr d" "\<not> rate_less d (min_dscr p)"
  | (cut) al'' r'' e add where
      "reduce_dscr_debts (dscr_debts al) al (max (ta - noi p / min_dscr p) 0) r = Inr (al'', r'')"
      "common_equity_of options = Some e" "al' = al'' @ [(e, add)]"
    by blast
  then have "kept dscr_weight al' \<le> noi p / min_dscr p + 1 / 1000000 \<and>
             (\<forall>e\<in>set al'. fst e \<in> set options)"
  proof cases
    case same
    from dscr_not_less [OF same(2,3) m n fl] have "ta = 0 \<or> ta \<le> noi p / min_dscr p" .
    then have "ta \<le> noi p / min_dscr p" using req by auto
    then have "kept dscr_weight al \<le> noi p / min_dscr p + 1 / 1000000"
      using le ta by linarith
    then show ?thesis using mem by (simp only: same(1) simp_thms)
  next
    case cut
    have "kept dscr_weight al''
          \<le> max 0 (total_annual_debt al - max (ta - noi p / min_dscr p) 0 + 1 / 1000000)"
      by (rule reduce_dscr_debts_from_ledger [OF cut(1) dist mem nn two cost])
    also have "\<dots> \<le> noi p / min_dscr p + 1 / 1000000"
      using ta req by (simp only: max_def split: if_splits) linarith
    finally have k: "kept dscr_weight al'' \<le> noi p / min_dscr p + 1 / 1000000" .
    have w: "dscr_weight e = 0"
      using common_equity_not_debt [OF cut(2)] by (simp add: dscr_weight_def)
    have "kept dscr_weight al' = kept dscr_weight al''"
      unfolding cut(3) kept_append kept_Cons kept_Nil w by simp
    then have k': "kept dscr_weight al' \<le> noi p / min_dscr p + 1 / 1000000"
      using k by simp
    have "map fst al'' = map fst al"
      by (rule reduce_dscr_debts_fst [OF cut(1)])
    then have "fst ` set al'' = fst ` set al"
      by (metis set_map)
    then have "\<forall>x\<in>set al''. fst x \<in> set options"
      using mem by (metis image_iff)
    moreover have "e \<in> set options"
      using cut(2) find_Some_kind [of options e] by (simp add: common_equity_of_def)
    ultimately have "\<forall>x\<in>set al'. fst x \<in> set options"
      unfolding cut(3) by simp
    then show ?thesis using k' by blast
  qed
  then show "kept dscr_weight al' \<le> noi p / min_dscr p + 1 / 1000000"
    and "\<forall>e\<in>set al'. fst e \<in> set options"
    by blast+
qed

lemma kept_nonneg:
  assumes "\<forall>e\<in>set al. 0 \<le> w (fst e)"
  shows "0 \<le> kept w al"
  using assms by (induction al) auto

lemma kept_mono_weight:
  assumes "\<forall>e\<in>set al. w (fst e) \<le> w' (fst e)"
  shows "kept w al \<le> kept w' al"
  using assms
proof (induction al)
  case Nil
  then show ?case by simp
next
  case (Cons e al)
  obtain o1 a where e: "e = (o1, a)" by (cases e)
  have w: "w o1 \<le> w' o1" using Cons.prems by (simp add: e)
  have ih: "kept w al \<le> kept w' al" using Cons by simp
  show ?case
  proof (cases "1 / 1000000 < a")
    case True
    then have "w o1 * a \<le> w' o1 * a"
      using w by (intro mult_right_mono) simp_all
    moreover have "kept w (e # al) = w o1 * a + kept w al"
      and "kept w' (e # al) = w' o1 * a + kept w' al"
      using True by (simp_all add: e)
    ultimately show ?thesis using ih by linarith
  next
    case False
    then show ?thesis using ih by (simp add: e)
  qed
qed

lemma kept_scale: "kept (\<lambda>o1. w o1 * c) al = kept w al * c"
  by (induction al) (auto simp: algebra_simps)

lemma dscr_debts_descending:
  "sorted (map (\<lambda>e. - annual_cost (fst e)) (dscr_debts al))"
proof -
  have "(\<lambda>(o1 :: capital_option, a :: real). - annual_cost o1) = (\<lambda>e. - annual_cost (fst e))"
    by (simp add: fun_eq_iff)
  then show ?thesis by (simp add: dscr_debts_def)
qed

subsection \<open>The order of the walk\<close>

lemma allocated_amounts: "allocated n al = sum_list (amounts_of n al)"
  by (induction al) auto

lemma amounts_of_none:
  "\<forall>x\<in>set xs. name (fst x) \<noteq> n \<Longrightarrow> amounts_of n xs = []"
  by (induction xs) auto

lemma visiting_sum_step:
  assumes "visiting (a # todo) cur"
  shows "sum_list (reduce_first a tp cur) = sum_list cur - tp"
  using assms unfolding visiting_def
  by (auto split: if_splits)

lemma reduce_dscr_debts_untouched:
  assumes "reduce_dscr_debts ds al d r = Inr (al', r')"
    and "\<forall>e\<in>set ds. name (fst e) \<noteq> n"
  shows "amounts_of n al' = amounts_of n al"
  using assms
proof (induction ds al d r rule: reduce_dscr_debts.induct)
  case (1 al d r)
  then show ?case by simp
next
  case (2 o1 a ds al d r)
  show ?case
  proof (cases "d \<le> 1 / 1000000")
    case True
    then show ?thesis using "2.prems"(1) by simp
  next
    case False
    have c: "annual_cost o1 \<noteq> 0"
      using "2.prems"(1) False by (auto simp: Let_def split: if_splits)
    let ?tp = "min (a * annual_cost o1) d / annual_cost o1"
    let ?al = "apply_reduction (name o1) a ?tp al"
    have rec: "reduce_dscr_debts ds ?al (d - min (a * annual_cost o1) d) (r + ?tp) = Inr (al', r')"
      using "2.prems"(1) False c by (simp add: Let_def)
    have ne: "n \<noteq> name o1" using "2.prems"(2) by auto
    have "amounts_of n al' = amounts_of n ?al"
      by (rule "2.IH" [OF False refl refl c refl rec]) (use "2.prems"(2) in simp)
    then show ?thesis using ne by (simp add: amounts_of_apply_reduction_other)
  qed
qed

lemma reduce_dscr_debts_order:
  assumes "reduce_dscr_debts ds al d r = Inr (al', r')"
    and "\<forall>e\<in>set ds. 0 < annual_cost (fst e) \<and> 0 \<le> snd e"
    and "\<forall>e\<in>set ds. \<forall>e'\<in>set ds. name (fst e') = name (fst e)
           \<longrightarrow> annual_cost (fst e') = annual_cost (fst e)"
    and "\<forall>n. visiting (amounts_of n ds) (amounts_of n al)"
    and "sorted (map (\<lambda>e. - annual_cost (fst e)) ds)"
  shows "\<forall>e1\<in>set ds. \<forall>e2\<in>set ds.
           annual_cost (fst e2) < annual_cost (fst e1) \<and>
           sum_list (amounts_of (name (fst e2)) al') < sum_list (amounts_of (name (fst e2)) al)
           \<longrightarrow> sum_list (amounts_of (name (fst e1)) al')
               = sum_list (amounts_of (name (fst e1)) al) - sum_list (amounts_of (name (fst e1)) ds)"
  using assms
proof (induction ds al d r rule: reduce_dscr_debts.induct)
  case (1 al d r)
  show ?case by simp
next
  case (2 o1 a ds al d r)
  let ?c = "annual_cost o1"
  let ?n = "name o1"
  let ?ds = "(o1, a) # ds"
  have o1: "0 < ?c" "0 \<le> a" using "2.prems"(2) by simp_all
  have head_max: "annual_cost (fst e) \<le> ?c" if "e \<in> set ?ds" for e
    using "2.prems"(5) that by auto
  have head_cost: "annual_cost (fst e) = ?c" if e: "e \<in> set ?ds" "name (fst e) = ?n" for e
  proof -
    have h: "(o1, a) \<in> set ?ds" by simp
    have "name (fst e) = name (fst (o1, a))
          \<longrightarrow> annual_cost (fst e) = annual_cost (fst (o1, a))"
      using "2.prems"(3) h e(1) by blast
    then show ?thesis using e(2) by simp
  qed
  have head_not_cheaper: "name (fst e2) \<noteq> ?n"
    if e: "e1 \<in> set ?ds" "e2 \<in> set ?ds" "annual_cost (fst e2) < annual_cost (fst e1)"
    for e1 e2
  proof
    assume n2: "name (fst e2) = ?n"
    have "annual_cost (fst e2) = ?c" by (rule head_cost [OF e(2) n2])
    moreover have "annual_cost (fst e1) \<le> ?c" by (rule head_max [OF e(1)])
    ultimately show False using e(3) by simp
  qed
  show ?case
  proof (cases "d \<le> 1 / 1000000")
    case True
    then have "al' = al" using "2.prems"(1) by simp
    then show ?thesis by simp
  next
    case False
    then have dpos: "0 < d" by simp
    have c: "?c \<noteq> 0" using o1 by simp
    let ?take = "min (a * ?c) d"
    let ?tp = "?take / ?c"
    let ?al = "apply_reduction ?n a ?tp al"
    have rec: "reduce_dscr_debts ds ?al (d - ?take) (r + ?tp) = Inr (al', r')"
      using "2.prems"(1) False c by (simp add: Let_def)
    have vis: "visiting (a # amounts_of ?n ds) (amounts_of ?n al)"
      using "2.prems"(4) [rule_format, of ?n] by simp
    have step_same: "sum_list (amounts_of ?n ?al) = sum_list (amounts_of ?n al) - ?tp"
      using visiting_sum_step [OF vis] by (simp add: amounts_of_apply_reduction_same)
    have step_other: "amounts_of n ?al = amounts_of n al" if "n \<noteq> ?n" for n
      using that by (simp add: amounts_of_apply_reduction_other)
    show ?thesis
    proof (cases "a * ?c \<le> d")
      case True
      then have take: "?take = a * ?c" by simp
      then have tpa: "?tp = a" using c by simp
      have ok': "\<forall>e\<in>set ds. 0 < annual_cost (fst e) \<and> 0 \<le> snd e"
        using "2.prems"(2) by simp
      have uniq': "\<forall>e\<in>set ds. \<forall>e'\<in>set ds. name (fst e') = name (fst e)
                     \<longrightarrow> annual_cost (fst e') = annual_cost (fst e)"
      proof (intro ballI impI)
        fix e e'
        assume "e \<in> set ds" "e' \<in> set ds" and eq: "name (fst e') = name (fst e)"
        then have "e \<in> set ?ds" "e' \<in> set ?ds" by simp_all
        then show "annual_cost (fst e') = annual_cost (fst e)"
          using eq "2.prems"(3) by blast
      qed
      have vis': "\<forall>n. visiting (amounts_of n ds) (amounts_of n ?al)"
      proof
        fix n
        show "visiting (amounts_of n ds) (amounts_of n ?al)"
        proof (cases "n = ?n")
          case True
          then show ?thesis
            using visiting_full_step [OF vis]
            by (simp add: amounts_of_apply_reduction_same tpa)
        next
          case False
          then show ?thesis
            using "2.prems"(4) [rule_format, of n]
            by (simp add: amounts_of_apply_reduction_other)
        qed
      qed
      have srt': "sorted (map (\<lambda>e. - annual_cost (fst e)) ds)"
        using "2.prems"(5) by simp
      note IH = "2.IH" [OF False refl refl c refl rec ok' uniq' vis' srt', rule_format]
      have same_total: "sum_list (amounts_of ?n ?al) = sum_list (amounts_of ?n al) - a"
        using step_same by (simp only: tpa)
      show ?thesis
      proof (intro ballI impI, elim conjE)
        fix e1 e2
        assume e1: "e1 \<in> set ?ds" and e2: "e2 \<in> set ?ds"
          and lt: "annual_cost (fst e2) < annual_cost (fst e1)"
          and red: "sum_list (amounts_of (name (fst e2)) al')
                    < sum_list (amounts_of (name (fst e2)) al)"
        let ?n1 = "name (fst e1)" and ?n2 = "name (fst e2)"
        have n2: "?n2 \<noteq> ?n" by (rule head_not_cheaper [OF e1 e2 lt])
        then have e2': "e2 \<in> set ds" using e2 by auto
        have red': "sum_list (amounts_of ?n2 al') < sum_list (amounts_of ?n2 ?al)"
          using red by (simp only: step_other [OF n2])
        have ds2: "amounts_of ?n2 ?ds = amounts_of ?n2 ds" using n2 by auto
        show "sum_list (amounts_of ?n1 al')
              = sum_list (amounts_of ?n1 al) - sum_list (amounts_of ?n1 ?ds)"
        proof (cases "?n1 = ?n")
          case n1: True
          have c1: "annual_cost (fst e1) = ?c" by (rule head_cost [OF e1 n1])
          have ds1: "sum_list (amounts_of ?n ?ds) = a + sum_list (amounts_of ?n ds)" by simp
          have "sum_list (amounts_of ?n al')
                = sum_list (amounts_of ?n ?al) - sum_list (amounts_of ?n ds)"
          proof (cases "\<exists>e\<in>set ds. name (fst e) = ?n")
            case True
            then obtain e where e: "e \<in> set ds" "name (fst e) = ?n" by blast
            then have "e \<in> set ?ds" by simp
            then have "annual_cost (fst e) = ?c" using e(2) by (rule head_cost)
            then have lt': "annual_cost (fst e2) < annual_cost (fst e)" using lt c1 by simp
            have "sum_list (amounts_of (name (fst e)) al')
                  = sum_list (amounts_of (name (fst e)) ?al)
                    - sum_list (amounts_of (name (fst e)) ds)"
              by (rule IH [OF e(1) e2' conjI [OF lt' red']])
            then show ?thesis by (simp only: e(2))
          next
            case False
            then have no: "\<forall>e\<in>set ds. name (fst e) \<noteq> ?n" by blast
            have "amounts_of ?n al' = amounts_of ?n ?al"
              by (rule reduce_dscr_debts_untouched [OF rec no])
            moreover have "amounts_of ?n ds = []"
              using no by (rule amounts_of_none)
            ultimately show ?thesis by simp
          qed
          then have "sum_list (amounts_of ?n al')
                     = sum_list (amounts_of ?n al) - sum_list (amounts_of ?n ?ds)"
            using same_total ds1 by linarith
          then show ?thesis by (simp only: n1)
        next
          case n1: False
          then have e1': "e1 \<in> set ds" using e1 by auto
          have ds1: "amounts_of ?n1 ?ds = amounts_of ?n1 ds" using n1 by auto
          have "sum_list (amounts_of ?n1 al')
                = sum_list (amounts_of ?n1 ?al) - sum_list (amounts_of ?n1 ds)"
            by (rule IH [OF e1' e2' conjI [OF lt red']])
          then show ?thesis by (simp only: step_other [OF n1] ds1)
        qed
      qed
    next
      case False
      then have take: "?take = d" by simp
      have "reduce_dscr_debts ds ?al (d - ?take) (r + ?tp) = Inr (?al, r + ?tp)"
        by (rule reduce_dscr_debts_stop) (simp add: take)
      then have al': "al' = ?al" using rec by simp
      show ?thesis
      proof (intro ballI impI, elim conjE)
        fix e1 e2
        assume e1: "e1 \<in> set ?ds" and e2: "e2 \<in> set ?ds"
          and lt: "annual_cost (fst e2) < annual_cost (fst e1)"
          and red: "sum_list (amounts_of (name (fst e2)) al')
                    < sum_list (amounts_of (name (fst e2)) al)"
        have "name (fst e2) \<noteq> ?n" by (rule head_not_cheaper [OF e1 e2 lt])
        then have "amounts_of (name (fst e2)) ?al = amounts_of (name (fst e2)) al"
          by (rule step_other)
        then have False using red by (simp only: al')
        then show "sum_list (amounts_of (name (fst e1)) al')
              = sum_list (amounts_of (name (fst e1)) al)
                - sum_list (amounts_of (name (fst e1)) ?ds)" ..
      qed
    qed
  qed
qed

subsection \<open>The walk over a ledger of distinct names\<close>

lemma amounts_of_dscr_debts_sum:
  assumes "\<forall>e\<in>set al. name (fst e) = n \<longrightarrow> is_debt (fst e) \<and> enforce_dscr (fst e)"
  shows "sum_list (amounts_of n (dscr_debts al)) = sum_list (amounts_of n al)"
proof -
  let ?E = "\<lambda>(o1, a). is_debt o1 \<and> enforce_dscr (o1 :: capital_option)"
  let ?N = "\<lambda>e :: allocation. name (fst e) = n"
  have "filter ?N (filter ?E al) = filter ?N al"
    unfolding filter_filter by (rule filter_cong) (use assms in auto)
  then have "amounts_of n (dscr_debts al)
             = map snd (sort_key (\<lambda>(o1, a). - annual_cost o1) (filter ?N al))"
    by (simp add: amounts_of_def dscr_debts_def filter_sort)
  then show ?thesis
    by (simp add: sum_list_map_sort_key amounts_of_def)
qed

lemma covenant_step_order:
  assumes c: "enforce_dscr_covenant p (common_equity_of options) ta (al, r) = Inr (al', r')"
    and dist: "distinct (map name options)"
    and mem: "\<forall>e\<in>set al. fst e \<in> set options"
    and nn: "\<forall>e\<in>set al. is_debt (fst e) \<longrightarrow> 0 \<le> snd e"
    and two: "\<forall>e\<in>set al. is_debt (fst e) \<longrightarrow> length (amounts_of (name (fst e)) al) \<le> 2"
    and cost: "\<forall>e\<in>set al. 0 < annual_cost (fst e)"
  shows "sheds_dearest_first options al al'"
  unfolding sheds_dearest_first_def
proof (intro ballI impI, elim conjE)
  fix o1 o2
  assume o1: "o1 \<in> set options" "is_debt o1" "enforce_dscr o1"
    and o2: "o2 \<in> set options" "is_debt o2" "enforce_dscr o2"
    and lt: "annual_cost o2 < annual_cost o1"
    and red: "allocated (name o2) al' < allocated (name o2) al"
  let ?ds = "dscr_debts al"
  from enforce_dscr_covenant_InrD [OF c] consider
    (same) "al' = al"
  | (cut) al'' r'' e add where
      "reduce_dscr_debts ?ds al (max (ta - noi p / min_dscr p) 0) r = Inr (al'', r'')"
      "common_equity_of options = Some e" "al' = al'' @ [(e, add)]"
    by blast
  then show "allocated (name o1) al' = 0"
  proof cases
    case same
    then show ?thesis using red by simp
  next
    case cut
    have e: "e \<in> set options" "\<not> is_debt e"
      using cut(2) find_Some_kind [of options e] common_equity_not_debt [of options e]
      by (simp_all add: common_equity_of_def)
    have ne: "name e \<noteq> name q" if "q \<in> set options" "is_debt q" for q
      using distinct_name_eq [OF dist e(1) that(1)] e(2) that(2) by blast
    have a1: "allocated (name o1) al' = sum_list (amounts_of (name o1) al'')"
      using ne [OF o1(1,2)] by (simp add: cut(3) allocated_amounts)
    have a2: "allocated (name o2) al' = sum_list (amounts_of (name o2) al'')"
      using ne [OF o2(1,2)] by (simp add: cut(3) allocated_amounts)
    have red': "sum_list (amounts_of (name o2) al'') < sum_list (amounts_of (name o2) al)"
      using red a2 allocated_amounts [of "name o2" al] by linarith
    have is_o: "fst x = q" if "x \<in> set al" "name (fst x) = name q" "q \<in> set options" for x q
    proof -
      have "fst x \<in> set options" using mem that(1) by blast
      then show ?thesis using distinct_name_eq [OF dist _ that(3) that(2)] by blast
    qed
    have in_ds: "x \<in> set ?ds \<longleftrightarrow> x \<in> set al \<and> is_debt (fst x) \<and> enforce_dscr (fst x)" for x
      by (simp add: set_dscr_debts)
    have ok: "\<forall>x\<in>set ?ds. 0 < annual_cost (fst x) \<and> 0 \<le> snd x"
      using nn cost by (simp add: in_ds)
    have uniq: "\<forall>x\<in>set ?ds. \<forall>x'\<in>set ?ds. name (fst x') = name (fst x)
                  \<longrightarrow> annual_cost (fst x') = annual_cost (fst x)"
    proof (intro ballI impI)
      fix x x' assume x: "x \<in> set ?ds" "x' \<in> set ?ds" "name (fst x') = name (fst x)"
      then have "fst x \<in> set options" "x' \<in> set al" using mem by (simp_all add: in_ds)
      then have "fst x' = fst x" using is_o x(3) by blast
      then show "annual_cost (fst x') = annual_cost (fst x)" by simp
    qed
    have vis: "\<forall>n. visiting (amounts_of n ?ds) (amounts_of n al)"
      using amounts_of_visited_start [OF mem dist two] by blast
    note order = reduce_dscr_debts_order [OF cut(1) ok uniq vis dscr_debts_descending, rule_format]
    have full: "sum_list (amounts_of (name q) ?ds) = sum_list (amounts_of (name q) al)"
      if "q \<in> set options" "is_debt q" "enforce_dscr q" for q
    proof (rule amounts_of_dscr_debts_sum, intro ballI impI)
      fix x assume "x \<in> set al" "name (fst x) = name q"
      then have "fst x = q" using that(1) by (rule is_o)
      then show "is_debt (fst x) \<and> enforce_dscr (fst x)" using that(2,3) by simp
    qed
    have touched: "\<exists>x\<in>set ?ds. name (fst x) = name o2"
    proof (rule ccontr)
      assume "\<not> (\<exists>x\<in>set ?ds. name (fst x) = name o2)"
      then have "\<forall>x\<in>set ?ds. name (fst x) \<noteq> name o2" by blast
      from reduce_dscr_debts_untouched [OF cut(1) this] red' show False by simp
    qed
    then obtain x2 where x2: "x2 \<in> set ?ds" "name (fst x2) = name o2" by blast
    then have f2: "fst x2 = o2" using is_o o2(1) by (simp add: in_ds)
    have "sum_list (amounts_of (name o1) al'') = 0"
    proof (cases "\<exists>x\<in>set ?ds. name (fst x) = name o1")
      case True
      then obtain x1 where x1: "x1 \<in> set ?ds" "name (fst x1) = name o1" by blast
      then have f1: "fst x1 = o1" using is_o o1(1) by (simp add: in_ds)
      have lt': "annual_cost (fst x2) < annual_cost (fst x1)" using lt by (simp only: f1 f2)
      have red'': "sum_list (amounts_of (name (fst x2)) al'')
                   < sum_list (amounts_of (name (fst x2)) al)"
        using red' by (simp only: f2)
      have "sum_list (amounts_of (name (fst x1)) al'')
            = sum_list (amounts_of (name (fst x1)) al) - sum_list (amounts_of (name (fst x1)) ?ds)"
        by (rule order [OF x1(1) x2(1) conjI [OF lt' red'']])
      then show ?thesis using full [OF o1] by (simp add: f1)
    next
      case False
      then have no: "\<forall>x\<in>set ?ds. name (fst x) \<noteq> name o1" by blast
      then have "amounts_of (name o1) ?ds = []"
        by (rule amounts_of_none)
      then have "sum_list (amounts_of (name o1) al) = 0"
        using full [OF o1] by simp
      then show ?thesis
        using reduce_dscr_debts_untouched [OF cut(1) no] by simp
    qed
    then show ?thesis by (simp only: a1)
  qed
qed

lemma final_ledger_service:
  assumes run: "optimize_stack p options g = Inr st"
    and dist: "distinct (map name options)"
    and vp: "valid_project p" and vo: "\<forall>o1\<in>set options. valid_option o1"
    and fl: "noi p = 0 \<or> min_dscr p \<le> float_overflow"
  shows "\<exists>al al'. dscr_stage p options = Inr (al, al') \<and> build_stack p al' = Inr st \<and>
           (\<forall>e\<in>set al'. fst e \<in> set options) \<and>
           kept dscr_weight al' \<le> noi p / min_dscr p + 1 / 1000000 \<and>
           sheds_dearest_first options al al'"
proof -
  from optimize_stack_InrD2 [OF run] obtain st4 st5 st6 where
    s: "funded_ledger p options = Inr st4"
       "enforce_max_ltc p (common_equity_of options) (total_debt_amount (fst st4)) st4 = Inr st5"
       "enforce_dscr_covenant p (common_equity_of options) (total_annual_debt (fst st4)) st5 = Inr st6"
       "build_stack p (fst st6) = Inr st"
    by blast
  obtain al4 r4 where st4: "st4 = (al4, r4)" by (cases st4)
  obtain al5 r5 where st5: "st5 = (al5, r5)" by (cases st5)
  obtain al6 r6 where st6: "st6 = (al6, r6)" by (cases st6)
  have f: "funded_ledger p options = Inr (al4, r4)"
    using s(1) by (simp only: st4)
  have l: "enforce_max_ltc p (common_equity_of options) (total_debt_amount al4) (al4, r4)
            = Inr (al5, r5)"
    using s(2) by (simp only: st4 st5 fst_conv)
  have c: "enforce_dscr_covenant p (common_equity_of options) (total_annual_debt al4) (al5, r5)
            = Inr (al6, r6)"
    using s(3) by (simp only: st4 st5 st6 fst_conv)
  have b: "build_stack p al6 = Inr st"
    using s(4) by (simp only: st6 fst_conv)
  note F = corrected_ledger_facts [OF f l dist vp vo]
  have m: "0 < min_dscr p" and n: "0 \<le> noi p"
    using vp by (simp_all add: valid_project_def)
  have cost: "\<forall>e\<in>set al5. 0 < annual_cost (fst e)"
  proof
    fix e assume "e \<in> set al5"
    then have "valid_option (fst e)" using F(1) vo by blast
    then show "0 < annual_cost (fst e)" by (simp add: valid_option_def)
  qed
  note C = covenant_step_bound [OF c dist F(1) F(2) F(3) cost F(4) m n fl]
  note W = covenant_step_order [OF c dist F(1) F(2) F(3) cost]
  have stage: "dscr_stage p options = Inr (al5, al6)"
    using f l c by (simp add: dscr_stage_def)
  from stage b C(2) C(1) W show ?thesis by blast
qed

lemma enforced_service_range:
  assumes run: "optimize_stack p options g = Inr st"
    and dist: "distinct (map name options)"
    and vp: "valid_project p" and vo: "\<forall>o1\<in>set options. valid_option o1"
    and fl: "noi p = 0 \<or> min_dscr p \<le> float_overflow"
  shows "0 \<le> enforced_debt_service options st"
    and "enforced_debt_service options st \<le> noi p / min_dscr p + 1 / 1000000"
proof -
  from final_ledger_service [OF run dist vp vo fl] obtain al0 al where
    "dscr_stage p options = Inr (al0, al)"
    and b: "build_stack p al = Inr st" and mem: "\<forall>e\<in>set al. fst e \<in> set options"
    and k: "kept dscr_weight al \<le> noi p / min_dscr p + 1 / 1000000"
    by blast
  have "enforced_debt_service options st
        = kept (\<lambda>o1. if is_debt o1 \<and> dscr_enforced options (name o1) then annual_cost o1 else 0) al"
    by (rule enforced_debt_service_kept [OF b])
  also have "\<dots> = kept dscr_weight al"
  proof (rule kept_cong, rule ballI)
    fix e assume "e \<in> set al"
    then have "fst e \<in> set options" using mem by blast
    then have "dscr_enforced options (name (fst e)) = enforce_dscr (fst e)"
      by (rule dscr_enforced_member [OF dist])
    then show "(if is_debt (fst e) \<and> dscr_enforced options (name (fst e))
                then annual_cost (fst e) else 0) = dscr_weight (fst e)"
      by (simp add: dscr_weight_def)
  qed
  finally have eq: "enforced_debt_service options st = kept dscr_weight al" .
  show "enforced_debt_service options st \<le> noi p / min_dscr p + 1 / 1000000"
    using k by (simp only: eq)
  have "0 \<le> kept dscr_weight al"
  proof (rule kept_nonneg, rule ballI)
    fix e assume "e \<in> set al"
    then have "valid_option (fst e)" using mem vo by blast
    then show "0 \<le> dscr_weight (fst e)" by (simp add: valid_option_def dscr_weight_def)
  qed
  then show "0 \<le> enforced_debt_service options st" by (simp only: eq)
qed

lemma enforced_option_service:
  assumes run: "optimize_stack p options g = Inr st"
    and dist: "distinct (map name options)"
    and vp: "valid_project p" and vo: "\<forall>o1\<in>set options. valid_option o1"
    and fl: "noi p = 0 \<or> min_dscr p \<le> float_overflow"
    and o1: "o1 \<in> set options" "is_debt o1" "enforce_dscr o1"
  shows "option_amount o1 st * annual_cost o1 \<le> noi p / min_dscr p + 1 / 1000000"
proof -
  from final_ledger_service [OF run dist vp vo fl] obtain al0 al where
    "dscr_stage p options = Inr (al0, al)"
    and b: "build_stack p al = Inr st" and mem: "\<forall>e\<in>set al. fst e \<in> set options"
    and k: "kept dscr_weight al \<le> noi p / min_dscr p + 1 / 1000000"
    by blast
  have "option_amount o1 st * annual_cost o1 = kept (same_slice o1) al * annual_cost o1"
    by (simp only: option_amount_kept [OF b])
  also have "\<dots> = kept (\<lambda>e. same_slice o1 e * annual_cost o1) al"
    by (simp only: kept_scale)
  also have "\<dots> \<le> kept dscr_weight al"
  proof (rule kept_mono_weight, rule ballI)
    fix e assume e: "e \<in> set al"
    then have in_opts: "fst e \<in> set options" using mem by blast
    then have v: "0 < annual_cost (fst e)" using vo by (simp add: valid_option_def)
    show "same_slice o1 (fst e) * annual_cost o1 \<le> dscr_weight (fst e)"
    proof (cases "name (fst e) = name o1")
      case True
      then have "fst e = o1" using distinct_name_eq [OF dist in_opts o1(1)] by simp
      then show ?thesis using o1(2,3) by (simp add: same_slice_def dscr_weight_def)
    next
      case False
      then show ?thesis using v by (simp add: same_slice_def dscr_weight_def)
    qed
  qed
  finally show ?thesis using k by linarith
qed

lemma dscr_run:
  "optimize_stack dscr_project [senior_debt, common_equity_opt] (1 / 100) = Inr dscr_stack"
  by (simp add: allocator_defs example_defs)

lemma idle_run:
  "optimize_stack idle_project [enforced_debt, instrument ''Common'' Equity (12 / 100)] (1 / 100)
   = Inr equity_stack"
  by (simp add: allocator_defs example_defs)

lemma tiered_run:
  "optimize_stack tiered_project tiered_options (1 / 100) = Inr tiered_stack"
  by (simp add: allocator_defs example_defs)

lemma tiered_stage:
  "dscr_stage tiered_project tiered_options = Inr (tiered_before, tiered_after)"
  by (simp add: dscr_stage_def funded_ledger_def common_equity_of_def allocator_defs example_defs)

section \<open>The DSCR covenant on the returned stack\<close>




section \<open>A project without income\<close>




end
